theory Spec2Isabelle
  imports Main
begin

section \<open>Go run-time outcomes\<close>

text \<open>
  A Go statement either parks its goroutine, panics, or completes. The three run-time
  panics the modelled code can raise are a send on a closed channel, an index out of
  range and a nil pointer dereference; an unrecovered panic ends the process. Values of
  type \<open>int64\<close> are modelled as \<open>int\<close>: the modelled code compares, copies and stores
  them, and its one subtraction (in \<open>Start\<close> of the task writer) is written with its
  wrap-around.
\<close>

datatype fault = SendOnClosedChannel | IndexOutOfRange | NilDereference

datatype 'a outcome = Blocks | Panics fault | Returns (result: 'a)

section \<open>matching: the task writer (service/matching/service.go, second part)\<close>

definition outstandingTaskAppendsThreshold :: nat where
  "outstandingTaskAppendsThreshold = 250"

definition maxTaskBatchSize :: nat where
  "maxTaskBatchSize = 100"

text \<open>
  Errors are opaque values. \<open>createServiceBusyError()\<close> is declared outside the given
  sources; its result is the constructor \<open>ServiceBusyError\<close>. Every other error (from
  \<open>newTaskIDs\<close> or \<open>CreateTasks\<close>) is an \<open>OtherError\<close> with its message.
\<close>

datatype error = ServiceBusyError | OtherError string

text \<open>
  \<open>s.WorkflowExecution\<close>, \<open>persistence.TaskInfo\<close> and \<open>persistence.CreateTasksResponse\<close>
  are declared outside the given sources. The writer copies the first and only passes
  pointers to the other two along, so the latter are opaque handles.
\<close>

record WorkflowExecution =
  WorkflowId :: "string option"
  RunId :: "string option"

datatype TaskInfo = TaskInfo nat

datatype CreateTasksResponse = CreateTasksResponse nat

record writeTaskResponse =
  err :: "error option"
  persistenceResponse :: "CreateTasksResponse option"

text \<open>
  Pointers are options (\<open>None\<close> is nil). A response channel is identified by a number:
  \<open>appendTask\<close> makes a fresh unbuffered channel for every call.
\<close>

record writeTaskRequest =
  execution :: "WorkflowExecution option"
  taskInfo :: "TaskInfo option"
  rangeID :: int
  responseCh :: nat

record CreateTaskInfo =
  TaskID :: int
  Execution :: WorkflowExecution
  Data :: "TaskInfo option"

record CreateTasksRequest =
  DomainID :: string
  TaskList :: string
  TaskListType :: int
  Tasks :: "CreateTaskInfo list"
  RangeID :: int

record taskListID =
  domainID :: string
  taskListName :: string
  taskType :: int

text \<open>
  The two collaborators of the writer, \<open>tlMgr.newTaskIDs\<close> and
  \<open>taskManager.CreateTasks\<close>, are not part of the given sources: they are parameters.
  Both return a Go pair (value, error).
\<close>

record collaborators =
  newTaskIDs :: "nat \<Rightarrow> int list \<times> error option"
  CreateTasks :: "CreateTasksRequest \<Rightarrow> CreateTasksResponse option \<times> error option"

datatype loop_status = NotStarted | Running | Exited

text \<open>
  The state of a \<open>taskWriter\<close>. \<open>appendCh\<close> is the buffer of the channel made by
  \<open>newTaskWriter\<close> with capacity \<open>outstandingTaskAppendsThreshold\<close>, oldest request
  first; \<open>appendCh_closed\<close> says whether \<open>close(w.appendCh)\<close> has run;
  \<open>shutdownCh_closed\<close> whether the shutdown channel has been closed by its owner.
  A loop parked in its receive on \<open>appendCh\<close> is an empty buffer here: a send then
  goes through, and the loop takes the request in its next pass.
  The effects of the loop on the outside are recorded in order: \<open>sent\<close> holds every
  response sent, with the response channel it was sent on, and \<open>createTasksCalls\<close>
  every \<open>CreateTasks\<close> call with what it returned.
\<close>

record taskWriter =
  tlID :: taskListID
  appendCh :: "writeTaskRequest list"
  appendCh_closed :: bool
  maxReadLevel :: int
  shutdownCh_closed :: bool
  loop :: loop_status
  sent :: "(nat \<times> writeTaskResponse) list"
  createTasksCalls ::
    "(CreateTasksRequest \<times> CreateTasksResponse option \<times> error option) list"

definition newTaskWriter :: "taskListID \<Rightarrow> taskWriter" where
  "newTaskWriter tlid =
     \<lparr>tlID = tlid, appendCh = [], appendCh_closed = False, maxReadLevel = 0,
      shutdownCh_closed = False, loop = NotStarted, sent = [], createTasksCalls = []\<rparr>"

text \<open>
  \<open>Start\<close>: the read level is one below the next sequence number of the task list
  manager (a parameter), and the loop runs. \<open>int64_pred\<close> is \<open>x - 1\<close> on \<open>int64\<close>.
\<close>

definition int64_pred :: "int \<Rightarrow> int" where
  "int64_pred x = (if x = - (2 ^ 63) then 2 ^ 63 - 1 else x - 1)"

definition Start :: "int \<Rightarrow> taskWriter \<Rightarrow> taskWriter" where
  "Start taskSequenceNumber w =
     w\<lparr>maxReadLevel := int64_pred taskSequenceNumber, loop := Running\<rparr>"

text \<open>
  \<open>appendTask\<close> up to the point where it returns or parks. The \<open>select\<close> has a send
  case and a \<open>default\<close>: a send on a closed channel panics, a send on an open channel
  with room in the buffer proceeds, otherwise the \<open>default\<close> case runs. After the send
  the caller is parked in \<open>r := <-ch\<close>; \<open>appendTask_receive\<close> is what it returns once
  a response \<open>r\<close> arrives.
\<close>

datatype appendTask_state =
  Returned "CreateTasksResponse option" "error option"
| AwaitsResponse nat

definition appendTask ::
  "taskWriter \<Rightarrow> WorkflowExecution option \<Rightarrow> TaskInfo option \<Rightarrow> int \<Rightarrow> nat
     \<Rightarrow> (appendTask_state \<times> taskWriter) outcome" where
  "appendTask w ex ti rid ch =
     (let req = \<lparr>execution = ex, taskInfo = ti, rangeID = rid, responseCh = ch\<rparr> in
      if appendCh_closed w then Panics SendOnClosedChannel
      else if length (appendCh w) < outstandingTaskAppendsThreshold
        then Returns (AwaitsResponse ch, w\<lparr>appendCh := appendCh w @ [req]\<rparr>)
      else Returns (Returned None (Some ServiceBusyError), w))"

definition appendTask_receive :: "writeTaskResponse \<Rightarrow> appendTask_state" where
  "appendTask_receive r = Returned (persistenceResponse r) (err r)"

definition GetMaxReadLevel :: "taskWriter \<Rightarrow> int" where
  "GetMaxReadLevel w = maxReadLevel w"

text \<open>
  \<open>getWriteBatch\<close>: the loop counter \<open>i\<close>, the batch so far and the channel buffer.
  The receive case takes the oldest buffered request; with an empty buffer the
  \<open>default\<close> case leaves the loop. The result is the batch and the remaining buffer.
\<close>

fun getWriteBatch_from ::
  "nat \<Rightarrow> writeTaskRequest list \<Rightarrow> writeTaskRequest list
     \<Rightarrow> writeTaskRequest list \<times> writeTaskRequest list" where
  "getWriteBatch_from i reqs [] = (reqs, [])"
| "getWriteBatch_from i reqs (req # chan) =
     (if i < maxTaskBatchSize then getWriteBatch_from (Suc i) (reqs @ [req]) chan
      else (reqs, req # chan))"

definition getWriteBatch ::
  "writeTaskRequest list \<Rightarrow> writeTaskRequest list
     \<Rightarrow> writeTaskRequest list \<times> writeTaskRequest list" where
  "getWriteBatch reqs chan = getWriteBatch_from 0 reqs chan"

text \<open>
  \<open>sendWriteResponse\<close>: one response per request, in order, each on the request's own
  response channel. Every such channel has its \<open>appendTask\<close> caller parked in the
  receive, so each send completes.
\<close>

definition sendWriteResponse ::
  "writeTaskRequest list \<Rightarrow> error option \<Rightarrow> CreateTasksResponse option
     \<Rightarrow> (nat \<times> writeTaskResponse) list" where
  "sendWriteResponse reqs e r =
     map (\<lambda>req. (responseCh req, \<lparr>err = e, persistenceResponse = r\<rparr>)) reqs"

text \<open>
  The \<open>for i, req := range reqs\<close> loop of \<open>taskWriterLoop\<close>: the index \<open>i\<close>, the
  requests still to visit, and the three variables it updates (\<open>tasks\<close>, \<open>rangeID\<close>,
  \<open>maxReadLevel\<close>). \<open>taskIDs[i]\<close> panics out of range and \<open>*req.execution\<close> panics on
  a nil pointer.
\<close>

fun buildTasks ::
  "int list \<Rightarrow> nat \<Rightarrow> writeTaskRequest list \<Rightarrow> CreateTaskInfo list \<Rightarrow> int \<Rightarrow> int
     \<Rightarrow> fault + (CreateTaskInfo list \<times> int \<times> int)" where
  "buildTasks taskIDs i [] tasks rid mrl = Inr (tasks, rid, mrl)"
| "buildTasks taskIDs i (req # reqs) tasks rid mrl =
     (if length taskIDs \<le> i then Inl IndexOutOfRange
      else case execution req of
        None \<Rightarrow> Inl NilDereference
      | Some ex \<Rightarrow>
          buildTasks taskIDs (Suc i) reqs
            (tasks @ [\<lparr>TaskID = taskIDs ! i, Execution = ex, Data = taskInfo req\<rparr>])
            (if rangeID req > rid then rangeID req else rid)
            (taskIDs ! i))"

text \<open>
  The body of the \<open>case request := <-w.appendCh\<close> branch, entered with \<open>request\<close>
  already taken from the buffer. When \<open>newTaskIDs\<close> fails the responses carry its
  error and the pass ends (\<open>continue writerLoop\<close>). Otherwise the tasks are built,
  \<open>CreateTasks\<close> is called once, its error is logged if there is one (the log line
  reads \<open>taskIDs[0]\<close> and \<open>taskIDs[batchSize-1]\<close>, both in range once the tasks
  have been built), the read level is stored if the local \<open>maxReadLevel\<close> is positive,
  and the responses carry what \<open>CreateTasks\<close> returned.
\<close>

definition writeBatch ::
  "collaborators \<Rightarrow> taskWriter \<Rightarrow> writeTaskRequest \<Rightarrow> taskWriter outcome" where
  "writeBatch env w request =
     (case getWriteBatch [request] (appendCh w) of (reqs, chan) \<Rightarrow>
        (case newTaskIDs env (length reqs) of
           (taskIDs, Some e) \<Rightarrow>
             Returns (w\<lparr>appendCh := chan,
                        sent := sent w @ sendWriteResponse reqs (Some e) None\<rparr>)
         | (taskIDs, None) \<Rightarrow>
             (case buildTasks taskIDs 0 reqs [] 0 0 of
                Inl f \<Rightarrow> Panics f
              | Inr (tasks, rid, mrl) \<Rightarrow>
                  (let cr = \<lparr>DomainID = domainID (tlID w),
                             TaskList = taskListName (tlID w),
                             TaskListType = taskType (tlID w),
                             Tasks = tasks, RangeID = rid\<rparr>
                   in case CreateTasks env cr of (r, e) \<Rightarrow>
                     Returns (w\<lparr>appendCh := chan,
                                maxReadLevel := (if mrl > 0 then mrl else maxReadLevel w),
                                sent := sent w @ sendWriteResponse reqs e r,
                                createTasksCalls :=
                                  createTasksCalls w @ [(cr, r, e)]\<rparr>)))))"

text \<open>
  One pass through the \<open>select\<close> of \<open>taskWriterLoop\<close>. Which ready case runs is the
  scheduler's choice, given as \<open>c\<close>; a case that is not ready parks the loop. The
  shutdown case leaves the loop, and the deferred \<open>close(w.appendCh)\<close> runs.
  Before \<open>Start\<close> and once the loop has exited there is nothing to run.
\<close>

datatype select_case = RecvAppend | RecvShutdown

definition taskWriterLoop_step ::
  "collaborators \<Rightarrow> select_case \<Rightarrow> taskWriter \<Rightarrow> taskWriter outcome" where
  "taskWriterLoop_step env c w =
     (if loop w \<noteq> Running then Returns w
      else case c of
        RecvAppend \<Rightarrow>
          (case appendCh w of
             [] \<Rightarrow> Blocks
           | request # chan \<Rightarrow> writeBatch env (w\<lparr>appendCh := chan\<rparr>) request)
      | RecvShutdown \<Rightarrow>
          (if shutdownCh_closed w
           then Returns (w\<lparr>loop := Exited, appendCh_closed := True\<rparr>)
           else Blocks))"

text \<open>
  The batch the next pass through the receive case forms: the request received and
  whatever \<open>getWriteBatch\<close> adds to it from the rest of the buffer.
\<close>

definition batchOf :: "taskWriter \<Rightarrow> writeTaskRequest list" where
  "batchOf w =
     (case appendCh w of
        [] \<Rightarrow> []
      | request # chan \<Rightarrow> fst (getWriteBatch [request] chan))"

text \<open>
  \<open>close(w.appendCh)\<close> is deferred, so it runs whenever \<open>taskWriterLoop\<close> is left:
  by the shutdown case, and also when a pass panics, before the unrecovered panic ends
  the process. \<open>taskWriterLoop_unwind w\<close> is the writer at that moment for a pass
  through the receive case that started at \<open>w\<close> and panicked: the batch has been
  taken from the channel, nothing has been sent for it (the panics of the pass come
  before its sends), the loop is gone and the channel is closed.
\<close>

definition taskWriterLoop_unwind :: "taskWriter \<Rightarrow> taskWriter" where
  "taskWriterLoop_unwind w =
     (case appendCh w of
        [] \<Rightarrow> w
      | request # chan \<Rightarrow>
          w\<lparr>appendCh := snd (getWriteBatch [request] chan),
            loop := Exited, appendCh_closed := True\<rparr>)"

subsection \<open>Concrete inputs for the examples\<close>

definition exampleList :: taskListID where
  "exampleList = \<lparr>domainID = ''domain'', taskListName = ''list'', taskType = 0\<rparr>"

definition exampleRequest :: "nat \<Rightarrow> int \<Rightarrow> writeTaskRequest" where
  "exampleRequest ch rid =
     \<lparr>execution = Some \<lparr>WorkflowId = Some ''wid'', RunId = Some ''rid''\<rparr>,
      taskInfo = Some (TaskInfo ch), rangeID = rid, responseCh = ch\<rparr>"

definition pendingRequests :: "nat \<Rightarrow> writeTaskRequest list" where
  "pendingRequests n = map (\<lambda>ch. exampleRequest ch 1) [0..<n]"

text \<open>An allocator handing out the block \<open>first, first + 1, \<dots>\<close> and two stores.\<close>

definition allocateFrom :: "int \<Rightarrow> nat \<Rightarrow> int list \<times> error option" where
  "allocateFrom first n = (map (\<lambda>k. first + int k) [0..<n], None)"

definition storeAccepts ::
  "CreateTasksRequest \<Rightarrow> CreateTasksResponse option \<times> error option" where
  "storeAccepts cr = (Some (CreateTasksResponse 0), None)"

definition storeFails ::
  "CreateTasksRequest \<Rightarrow> CreateTasksResponse option \<times> error option" where
  "storeFails cr = (None, Some (OtherError ''FAILED''))"

definition acceptingStore :: collaborators where
  "acceptingStore = \<lparr>newTaskIDs = allocateFrom 5, CreateTasks = storeAccepts\<rparr>"

definition failingStore :: collaborators where
  "failingStore = \<lparr>newTaskIDs = allocateFrom 5, CreateTasks = storeFails\<rparr>"

text \<open>A started writer with the given requests waiting in its channel.\<close>

definition runningWriter :: "writeTaskRequest list \<Rightarrow> taskWriter" where
  "runningWriter pending = (Start 1 (newTaskWriter exampleList))\<lparr>appendCh := pending\<rparr>"

text \<open>The same writer after its owner closed the shutdown channel and the loop left.\<close>

definition stoppedWriter :: "writeTaskRequest list \<Rightarrow> taskWriter" where
  "stoppedWriter pending =
     (runningWriter pending)\<lparr>shutdownCh_closed := True, loop := Exited, appendCh_closed := True\<rparr>"

text \<open>
  Two requests carrying the range IDs 3 and 7 wait in the channel of a running writer;
  the allocator hands out the task IDs 5 and 6. \<open>twoTasksRequest\<close> is the
  \<open>CreateTasks\<close> request the loop builds from them, and \<open>afterTwo r e\<close> the writer
  after the pass when the store answered \<open>(r, e)\<close>.
\<close>

definition twoPending :: taskWriter where
  "twoPending = runningWriter [exampleRequest 1 3, exampleRequest 2 7]"

definition twoTasksRequest :: CreateTasksRequest where
  "twoTasksRequest =
     \<lparr>DomainID = ''domain'', TaskList = ''list'', TaskListType = 0,
      Tasks = [\<lparr>TaskID = 5, Execution = \<lparr>WorkflowId = Some ''wid'', RunId = Some ''rid''\<rparr>,
                Data = Some (TaskInfo 1)\<rparr>,
               \<lparr>TaskID = 6, Execution = \<lparr>WorkflowId = Some ''wid'', RunId = Some ''rid''\<rparr>,
                Data = Some (TaskInfo 2)\<rparr>],
      RangeID = 7\<rparr>"

definition afterTwo :: "CreateTasksResponse option \<Rightarrow> error option \<Rightarrow> taskWriter" where
  "afterTwo r e =
     (runningWriter [])\<lparr>maxReadLevel := 6,
        sent := [(1, \<lparr>err = e, persistenceResponse = r\<rparr>),
                 (2, \<lparr>err = e, persistenceResponse = r\<rparr>)],
        createTasksCalls := [(twoTasksRequest, r, e)]\<rparr>"

text \<open>A request whose execution pointer is nil.\<close>

definition nilRequest :: "nat \<Rightarrow> writeTaskRequest" where
  "nilRequest ch = \<lparr>execution = None, taskInfo = None, rangeID = 1, responseCh = ch\<rparr>"

section \<open>persistence: visibility records of closed executions\<close>

text \<open>
  \<open>RecordWorkflowExecutionClosed\<close> of \<open>cassandraVisibilityPersistence\<close>. The request
  type, the Thrift getters and \<open>common.UnixNanoToCQLTimestamp\<close> are declared outside the
  given sources: the request is a record of the fields the function reads, a getter
  yields the empty string for an unset field, and the timestamp conversion is the
  parameter \<open>toCQL\<close>. The session is the parameter \<open>ExecuteBatch\<close>, which returns the
  text of the error, if any.
\<close>

definition domainPartition :: int where
  "domainPartition = 0"

definition defaultCloseTTLSeconds :: int where
  "defaultCloseTTLSeconds = 86400"

definition templateDeleteWorkflowExecutionStarted :: string where
  "templateDeleteWorkflowExecutionStarted =
     ''DELETE FROM open_executions '' @
     ''WHERE domain_id = ? '' @
     ''AND domain_partition = ? '' @
     ''AND start_time = ? '' @
     ''AND run_id = ?''"

definition templateCreateWorkflowExecutionClosed :: string where
  "templateCreateWorkflowExecutionClosed =
     ''INSERT INTO closed_executions ('' @
     ''domain_id, domain_partition, workflow_id, run_id, start_time, close_time, workflow_type_name, status) '' @
     ''VALUES (?, ?, ?, ?, ?, ?, ?, ?) using TTL ?''"

record RecordWorkflowExecutionClosedRequest =
  DomainUUID :: string
  ClosedExecution :: WorkflowExecution
  WorkflowTypeName :: string
  StartTimestamp :: int
  CloseTimestamp :: int
  Status :: int
  RetentionSeconds :: int

definition GetWorkflowId :: "WorkflowExecution \<Rightarrow> string" where
  "GetWorkflowId e = (case WorkflowId e of None \<Rightarrow> [] | Some v \<Rightarrow> v)"

definition GetRunId :: "WorkflowExecution \<Rightarrow> string" where
  "GetRunId e = (case RunId e of None \<Rightarrow> [] | Some v \<Rightarrow> v)"

text \<open>A value bound to a \<open>?\<close> of a statement, and a batch of bound statements.\<close>

datatype bound = Text string | Number int

datatype batch_type = LoggedBatch | UnloggedBatch | CounterBatch

record batch =
  batchType :: batch_type
  entries :: "(string \<times> bound list) list"
  batchTimestamp :: "int option"

definition NewBatch :: "batch_type \<Rightarrow> batch" where
  "NewBatch t = \<lparr>batchType = t, entries = [], batchTimestamp = None\<rparr>"

definition Query :: "string \<Rightarrow> bound list \<Rightarrow> batch \<Rightarrow> batch" where
  "Query stmt args b = b\<lparr>entries := entries b @ [(stmt, args)]\<rparr>"

definition WithTimestamp :: "int \<Rightarrow> batch \<Rightarrow> batch" where
  "WithTimestamp t b = b\<lparr>batchTimestamp := Some t\<rparr>"

text \<open>The batch the function has built when it calls \<open>ExecuteBatch\<close>.\<close>

definition closedExecutionBatch ::
  "(int \<Rightarrow> int) \<Rightarrow> RecordWorkflowExecutionClosedRequest \<Rightarrow> batch" where
  "closedExecutionBatch toCQL request =
     (let b0 = NewBatch LoggedBatch;
          b1 = Query templateDeleteWorkflowExecutionStarted
                 [Text (DomainUUID request),
                  Number domainPartition,
                  Number (toCQL (StartTimestamp request)),
                  Text (GetRunId (ClosedExecution request))] b0;
          retention = (if RetentionSeconds request = 0 then defaultCloseTTLSeconds
                       else RetentionSeconds request);
          b2 = Query templateCreateWorkflowExecutionClosed
                 [Text (DomainUUID request),
                  Number domainPartition,
                  Text (GetWorkflowId (ClosedExecution request)),
                  Text (GetRunId (ClosedExecution request)),
                  Number (toCQL (StartTimestamp request)),
                  Number (toCQL (CloseTimestamp request)),
                  Text (WorkflowTypeName request),
                  Number (Status request),
                  Number retention] b1
      in WithTimestamp (toCQL (CloseTimestamp request)) b2)"

datatype service_error = InternalServiceError string

definition RecordWorkflowExecutionClosed ::
  "(int \<Rightarrow> int) \<Rightarrow> (batch \<Rightarrow> string option) \<Rightarrow> RecordWorkflowExecutionClosedRequest
     \<Rightarrow> service_error option" where
  "RecordWorkflowExecutionClosed toCQL ExecuteBatch request =
     (case ExecuteBatch (closedExecutionBatch toCQL request) of
        Some e \<Rightarrow>
          Some (InternalServiceError
                  (''RecordWorkflowExecutionClosed operation failed. Error: '' @ e))
      | None \<Rightarrow> None)"

text \<open>
  The time-to-live a batch gives to the rows it inserts into \<open>closed_executions\<close>: the
  value bound to the last \<open>?\<close> (\<open>using TTL ?\<close>) of each such statement.
\<close>

definition closedRowTTLs :: "batch \<Rightarrow> bound list" where
  "closedRowTTLs b =
     map (\<lambda>entry. last (snd entry))
       (filter (\<lambda>entry. fst entry = templateCreateWorkflowExecutionClosed) (entries b))"

text \<open>A request for the examples, with the retention left at zero, and a conversion.\<close>

definition exampleClosedRequest :: RecordWorkflowExecutionClosedRequest where
  "exampleClosedRequest =
     \<lparr>DomainUUID = ''domain'',
      ClosedExecution = \<lparr>WorkflowId = Some ''wid'', RunId = Some ''rid''\<rparr>,
      WorkflowTypeName = ''type'', StartTimestamp = 1000000, CloseTimestamp = 2000000,
      Status = 0, RetentionSeconds = 0\<rparr>"

definition nanoToMilli :: "int \<Rightarrow> int" where
  "nanoToMilli t = t div 1000000"

section \<open>matching: starting and stopping the service (service/matching/service.go, first part)\<close>

text \<open>
  \<open>stopC\<close> is made by \<open>NewService\<close> without a buffer and is never closed. A send on it
  proceeds only when a goroutine is parked in a receive on it, and then wakes that
  goroutine. The state of a \<open>Service\<close> is the number of \<open>Start\<close> calls parked in
  \<open><-s.stopC\<close>, the number of \<open>Start\<close> calls that have received and gone on to
  \<open>base.Stop()\<close>, and the lines logged.
\<close>

datatype log_line = Starting | Started | Stopped

record Service =
  parked :: nat
  baseStops :: nat
  logged :: "log_line list"

definition NewService :: Service where
  "NewService = \<lparr>parked = 0, baseStops = 0, logged = []\<rparr>"

text \<open>
  \<open>Start\<close> up to its receive on \<open>stopC\<close>, where it parks. \<open>persistenceError\<close> says
  whether \<open>NewCassandraTaskPersistence\<close> failed; then \<open>log.Fatalf\<close> ends the process
  and \<open>Start\<close> never reaches the receive (\<open>None\<close>).
\<close>

definition Service_Start :: "bool \<Rightarrow> Service \<Rightarrow> Service option" where
  "Service_Start persistenceError s =
     (if persistenceError then None
      else Some (s\<lparr>parked := Suc (parked s), logged := logged s @ [Starting, Started]\<rparr>))"

text \<open>
  \<open>Stop\<close>: the \<open>select\<close> sends if a \<open>Start\<close> is parked in the receive (which then
  resumes and calls \<open>base.Stop()\<close>), and takes the empty \<open>default\<close> case otherwise; then
  the line is logged.
\<close>

definition Service_Stop :: "Service \<Rightarrow> Service outcome" where
  "Service_Stop s =
     (let s1 = (if parked s > 0
                then s\<lparr>parked := parked s - 1, baseStops := Suc (baseStops s)\<rparr>
                else s)
      in Returns (s1\<lparr>logged := logged s1 @ [Stopped]\<rparr>))"

section \<open>history client: the wrapper that emits metrics (common/service/config/log.go, second part)\<close>

text \<open>
  The \<open>Client\<close> interface has fourteen operations: five return a response and an error,
  nine an error only. The wrapped client is a record of two functions, one for each
  kind, indexed by the operation; it takes the Thrift context, the request and the state
  of whatever is behind the client, and returns its result and the new state. Contexts,
  requests and responses are opaque to the wrapper (type variables).
\<close>

datatype response_operation =
  StartWorkflowExecution
| GetWorkflowExecutionNextEventID
| RecordDecisionTaskStarted
| RecordActivityTaskStarted
| RecordActivityTaskHeartbeat

datatype error_operation =
  RespondDecisionTaskCompleted
| RespondActivityTaskCompleted
| RespondActivityTaskFailed
| RespondActivityTaskCanceled
| RequestCancelWorkflowExecution
| SignalWorkflowExecution
| TerminateWorkflowExecution
| ScheduleDecisionTask
| RecordChildExecutionCompleted

record ('c, 'q, 'r, 's) Client =
  respond :: "response_operation \<Rightarrow> 'c \<Rightarrow> 'q \<Rightarrow> 's \<Rightarrow> ('r option \<times> error option) \<times> 's"
  acknowledge :: "error_operation \<Rightarrow> 'c \<Rightarrow> 'q \<Rightarrow> 's \<Rightarrow> error option \<times> 's"

text \<open>
  \<open>metrics.Client\<close> is declared outside the given sources. What the wrapper does to it is
  recorded as the list of its calls: \<open>HistoryClientScope op\<close> stands for the scope
  constant \<open>metrics.HistoryClient<op>Scope\<close> of the operation.
\<close>

datatype scope = HistoryClientScope "response_operation + error_operation"

datatype metric = CadenceRequests | CadenceLatency | CadenceFailures

datatype metrics_call =
  IncCounter scope metric
| StartTimer scope metric
| StopTimer scope metric

text \<open>
  The five wrappers that return \<open>(resp, err)\<close> differ only in the operation and its scope,
  and so do the nine that return \<open>err\<close>.
\<close>

definition metricClient_respond ::
  "('c, 'q, 'r, 's) Client \<Rightarrow> response_operation \<Rightarrow> 'c \<Rightarrow> 'q \<Rightarrow> 's \<times> metrics_call list
     \<Rightarrow> ('r option \<times> error option) \<times> 's \<times> metrics_call list" where
  "metricClient_respond client op ctx request st =
     (case st of (s, m) \<Rightarrow>
        (let m1 = m @ [IncCounter (HistoryClientScope (Inl op)) CadenceRequests];
             m2 = m1 @ [StartTimer (HistoryClientScope (Inl op)) CadenceLatency]
         in case respond client op ctx request s of ((resp, e), s') \<Rightarrow>
              (let m3 = m2 @ [StopTimer (HistoryClientScope (Inl op)) CadenceLatency];
                   m4 = (if e \<noteq> None
                         then m3 @ [IncCounter (HistoryClientScope (Inl op)) CadenceFailures]
                         else m3)
               in ((resp, e), s', m4))))"

definition metricClient_acknowledge ::
  "('c, 'q, 'r, 's) Client \<Rightarrow> error_operation \<Rightarrow> 'c \<Rightarrow> 'q \<Rightarrow> 's \<times> metrics_call list
     \<Rightarrow> error option \<times> 's \<times> metrics_call list" where
  "metricClient_acknowledge client op ctx request st =
     (case st of (s, m) \<Rightarrow>
        (let m1 = m @ [IncCounter (HistoryClientScope (Inr op)) CadenceRequests];
             m2 = m1 @ [StartTimer (HistoryClientScope (Inr op)) CadenceLatency]
         in case acknowledge client op ctx request s of (e, s') \<Rightarrow>
              (let m3 = m2 @ [StopTimer (HistoryClientScope (Inr op)) CadenceLatency];
                   m4 = (if e \<noteq> None
                         then m3 @ [IncCounter (HistoryClientScope (Inr op)) CadenceFailures]
                         else m3)
               in (e, s', m4))))"

section \<open>history: the timer queue processor\<close>

text \<open>
  Modelled from the spec: the timer queue processor and the workflow state it works on.
  The given sources hold only the processor's test suite, not the processor, the
  mutable-state builder or the history builder. The data follow section 3 of the spec
  (mutable state: pending activities by schedule ID, pending user timers by timer ID, the
  pending decision), the liveness check follows the validity check matrix of section 4.5,
  and firing follows step 3 of the algorithm of section 4.5.
\<close>

text \<open>
  Modelled from the spec: an activity in the mutable state, with \<open>startedID\<close> the
  sentinel "empty" (\<open>None\<close>) until the activity is started.
\<close>

record ActivityInfo =
  startedID :: "int option"
  lastHeartbeat :: int
  heartbeatTimeout :: int

text \<open>
  Modelled from the spec: the mutable state. The pending decision is its schedule ID and,
  once started, its started ID.
\<close>

record mutable_state =
  activityInfos :: "int \<rightharpoonup> ActivityInfo"
  timerInfos :: "string \<rightharpoonup> int"
  decision :: "(int \<times> int option) option"

text \<open>
  Modelled from the spec: what a timer task is about, one constructor for each row of the
  validity check matrix, with the key of the timer, activity or decision it refers to.
\<close>

datatype timer_target =
  UserTimer string
| ActivityScheduleToStart int
| ActivityStartToClose int
| ActivityScheduleToClose int
| ActivityHeartbeat int
| DecisionScheduleToStart int
| DecisionStartToClose int

record timer_task =
  timerTaskID :: int
  visibilityTime :: int
  target :: timer_target

text \<open>Modelled from the spec: the validity check matrix, at wall-clock time \<open>now\<close>.\<close>

fun stillValid :: "int \<Rightarrow> mutable_state \<Rightarrow> timer_target \<Rightarrow> bool" where
  "stillValid now ms (UserTimer timerID) = (timerInfos ms timerID \<noteq> None)"
| "stillValid now ms (ActivityScheduleToStart scheduleID) =
     (case activityInfos ms scheduleID of None \<Rightarrow> False | Some a \<Rightarrow> startedID a = None)"
| "stillValid now ms (ActivityStartToClose scheduleID) =
     (case activityInfos ms scheduleID of None \<Rightarrow> False | Some a \<Rightarrow> startedID a \<noteq> None)"
| "stillValid now ms (ActivityScheduleToClose scheduleID) =
     (activityInfos ms scheduleID \<noteq> None)"
| "stillValid now ms (ActivityHeartbeat scheduleID) =
     (case activityInfos ms scheduleID of
        None \<Rightarrow> False
      | Some a \<Rightarrow> startedID a \<noteq> None \<and> now - lastHeartbeat a \<ge> heartbeatTimeout a)"
| "stillValid now ms (DecisionScheduleToStart scheduleID) =
     (decision ms = Some (scheduleID, None))"
| "stillValid now ms (DecisionStartToClose scheduleID) =
     (case decision ms of
        None \<Rightarrow> False
      | Some (s, started) \<Rightarrow> s = scheduleID \<and> started \<noteq> None)"

text \<open>
  Modelled from the spec: the history of a workflow is append-only, event IDs count up
  from 1 and \<open>nextEventID\<close> is the ID the next event gets. Only the timeout events the
  processor emits are told apart; every other event is an \<open>OtherEvent\<close>.
\<close>

datatype history_event = TimeoutEvent timer_target | OtherEvent

record workflow =
  history :: "history_event list"
  nextEventID :: nat
  mutableState :: mutable_state

text \<open>
  Modelled from the spec: the staged mutation of a firing timer removes the pending
  timer, activity or decision the task refers to.
\<close>

fun removePending :: "timer_target \<Rightarrow> mutable_state \<Rightarrow> mutable_state" where
  "removePending (UserTimer timerID) ms = ms\<lparr>timerInfos := (timerInfos ms)(timerID := None)\<rparr>"
| "removePending (ActivityScheduleToStart s) ms =
     ms\<lparr>activityInfos := (activityInfos ms)(s := None)\<rparr>"
| "removePending (ActivityStartToClose s) ms =
     ms\<lparr>activityInfos := (activityInfos ms)(s := None)\<rparr>"
| "removePending (ActivityScheduleToClose s) ms =
     ms\<lparr>activityInfos := (activityInfos ms)(s := None)\<rparr>"
| "removePending (ActivityHeartbeat s) ms =
     ms\<lparr>activityInfos := (activityInfos ms)(s := None)\<rparr>"
| "removePending (DecisionScheduleToStart s) ms = ms\<lparr>decision := None\<rparr>"
| "removePending (DecisionStartToClose s) ms = ms\<lparr>decision := None\<rparr>"

text \<open>
  Modelled from the spec: what a committed firing writes: the timeout event appended to
  the history that was read, the next event ID advanced, the pending entry removed.
\<close>

definition fired :: "timer_target \<Rightarrow> workflow \<Rightarrow> workflow" where
  "fired tgt wfl =
     \<lparr>history = history wfl @ [TimeoutEvent tgt],
      nextEventID = Suc (nextEventID wfl),
      mutableState = removePending tgt (mutableState wfl)\<rparr>"

text \<open>
  Modelled from the spec: the processor of one shard, reduced to one workflow: the stored
  workflow, the timer index and the counter \<open>timerFiredCount\<close>.
\<close>

record timer_processor =
  stored :: workflow
  timerIndex :: "timer_task list"
  timerFiredCount :: nat

text \<open>
  Modelled from the spec: firing one due task (step 3 of section 4.5). The processor loads
  the state and checks that the task is still live. A stale task is deleted from the
  index without an event. For a live task it commits the timeout event by the conditional
  update and, on success, deletes the task from the index. The conditional update fails
  with a version mismatch when another writer has updated the workflow since it was
  read; then the processor retries from the load, at most \<open>budget\<close> attempts in all, and
  gives the cycle up with the task still in the index when they are used up.
  The other writers are the parameter \<open>attempts\<close>: \<open>attempts n = None\<close> says that
  the update of attempt \<open>n\<close> commits, \<open>attempts n = Some wfl\<close> that it meets a version
  mismatch and that \<open>wfl\<close> is the workflow now stored. The spec does not say when
  \<open>timerFiredCount\<close> is incremented; the test suite expects it at 1 after one task has
  been fired and also after one stale task has been deleted, so it counts the tasks
  completed either way.
\<close>

fun fireTimer ::
  "(nat \<Rightarrow> workflow option) \<Rightarrow> nat \<Rightarrow> nat \<Rightarrow> int \<Rightarrow> timer_task \<Rightarrow> timer_processor
     \<Rightarrow> timer_processor" where
  "fireTimer attempts n 0 now task p = p"
| "fireTimer attempts n (Suc budget) now task p =
     (if \<not> stillValid now (mutableState (stored p)) (target task)
      then p\<lparr>timerIndex := remove1 task (timerIndex p),
             timerFiredCount := Suc (timerFiredCount p)\<rparr>
      else case attempts n of
        None \<Rightarrow>
          p\<lparr>stored := fired (target task) (stored p),
            timerIndex := remove1 task (timerIndex p),
            timerFiredCount := Suc (timerFiredCount p)\<rparr>
      | Some wfl \<Rightarrow> fireTimer attempts (Suc n) budget now task (p\<lparr>stored := wfl\<rparr>))"

text \<open>
  Modelled from the spec: the scenario "timer update contention" (and the test
  \<open>TestTimerUpdateTimesOut\<close>): a workflow of three events with a started decision
  (scheduled as event 2, started as event 3), the decision's start-to-close timer task
  with task ID 100, and two update attempts of which the first meets a version mismatch
  with the workflow unchanged.
\<close>

definition contendedWorkflow :: workflow where
  "contendedWorkflow =
     \<lparr>history = [OtherEvent, OtherEvent, OtherEvent], nextEventID = 4,
      mutableState = \<lparr>activityInfos = Map.empty, timerInfos = Map.empty,
                      decision = Some (2, Some 3)\<rparr>\<rparr>"

definition decisionTimer :: timer_task where
  "decisionTimer = \<lparr>timerTaskID = 100, visibilityTime = 1, target = DecisionStartToClose 2\<rparr>"

definition contendedProcessor :: timer_processor where
  "contendedProcessor =
     \<lparr>stored = contendedWorkflow, timerIndex = [decisionTimer], timerFiredCount = 0\<rparr>"

definition firstAttemptFails :: "nat \<Rightarrow> workflow option" where
  "firstAttemptFails n = (if n = 0 then Some contendedWorkflow else None)"

section \<open>Properties of the task writer\<close>

subsection \<open>What the loops compute\<close>

lemma getWriteBatch_from_take_drop:
  "getWriteBatch_from i reqs chan =
     (reqs @ take (maxTaskBatchSize - i) chan, drop (maxTaskBatchSize - i) chan)"
proof (induction chan arbitrary: i reqs)
  case Nil
  then show ?case by simp
next
  case (Cons req chan)
  show ?case
  proof (cases "i < maxTaskBatchSize")
    case True
    then have "maxTaskBatchSize - i = Suc (maxTaskBatchSize - Suc i)" by simp
    with True Cons show ?thesis by simp
  next
    case False
    then show ?thesis by simp
  qed
qed

lemma getWriteBatch_take_drop:
  "getWriteBatch reqs chan = (reqs @ take maxTaskBatchSize chan, drop maxTaskBatchSize chan)"
  by (simp add: getWriteBatch_def getWriteBatch_from_take_drop)

lemma buildTasks_rangeID_fold:
  "buildTasks taskIDs i reqs tasks rid mrl = Inr (tasks', rid', mrl') \<Longrightarrow>
     rid' = fold max (map rangeID reqs) rid"
proof (induction reqs arbitrary: i tasks rid mrl)
  case Nil
  then show ?case by simp
next
  case (Cons req reqs)
  from Cons.prems obtain ex where ex: "execution req = Some ex" and i: "i < length taskIDs"
    by (cases "execution req") (simp_all split: if_splits)
  let ?rid = "if rangeID req > rid then rangeID req else rid"
  from Cons.prems i ex have "rid' = fold max (map rangeID reqs) ?rid"
    by (intro Cons.IH) simp
  moreover have "?rid = max (rangeID req) rid"
    by (simp add: max_def)
  ultimately show ?case by simp
qed

lemma buildTasks_rangeID:
  assumes "buildTasks taskIDs i reqs tasks rid mrl = Inr (tasks', rid', mrl')"
  shows "rid' = Max (insert rid (rangeID ` set reqs))"
proof -
  have "Max (set (rid # map rangeID reqs)) = fold max (map rangeID reqs) rid"
    by (rule Max.set_eq_fold)
  with buildTasks_rangeID_fold [OF assms] show ?thesis by simp
qed

lemma buildTasks_TaskIDs:
  "buildTasks taskIDs i reqs tasks rid mrl = Inr (tasks', rid', mrl') \<Longrightarrow>
     map TaskID tasks' = map TaskID tasks @ take (length reqs) (drop i taskIDs)"
proof (induction reqs arbitrary: i tasks rid mrl)
  case Nil
  then show ?case by simp
next
  case (Cons req reqs)
  from Cons.prems obtain ex where ex: "execution req = Some ex" and i: "i < length taskIDs"
    by (cases "execution req") (simp_all split: if_splits)
  from Cons.prems i ex have "map TaskID tasks' =
      map TaskID (tasks @ [\<lparr>TaskID = taskIDs ! i, Execution = ex, Data = taskInfo req\<rparr>])
        @ take (length reqs) (drop (Suc i) taskIDs)"
    by (intro Cons.IH) simp
  moreover from i have "drop i taskIDs = taskIDs ! i # drop (Suc i) taskIDs"
    by (simp add: Cons_nth_drop_Suc)
  ultimately show ?case by simp
qed

lemma buildTasks_maxReadLevel:
  "buildTasks taskIDs i reqs tasks rid mrl = Inr (tasks', rid', mrl') \<Longrightarrow>
     mrl' = (if reqs = [] then mrl else taskIDs ! (i + length reqs - 1))
     \<and> (reqs \<noteq> [] \<longrightarrow> i + length reqs \<le> length taskIDs)"
proof (induction reqs arbitrary: i tasks rid mrl)
  case Nil
  then show ?case by simp
next
  case (Cons req reqs)
  from Cons.prems obtain ex where ex: "execution req = Some ex" and i: "i < length taskIDs"
    by (cases "execution req") (simp_all split: if_splits)
  from Cons.prems i ex have
    "mrl' = (if reqs = [] then taskIDs ! i else taskIDs ! (Suc i + length reqs - 1))
     \<and> (reqs \<noteq> [] \<longrightarrow> Suc i + length reqs \<le> length taskIDs)"
    by (intro Cons.IH) simp
  with i show ?case by auto
qed

lemma batchOf_take: "batchOf w = take (Suc maxTaskBatchSize) (appendCh w)"
  by (cases "appendCh w") (simp_all add: batchOf_def getWriteBatch_take_drop)

lemma writeBatch_cases:
  assumes ret: "writeBatch env w request = Returns w'"
  obtains
    (allocation_failed) taskIDs e where
      "newTaskIDs env (Suc (length (take maxTaskBatchSize (appendCh w)))) = (taskIDs, Some e)"
      "w' = w\<lparr>appendCh := drop maxTaskBatchSize (appendCh w),
               sent := sent w @ sendWriteResponse (request # take maxTaskBatchSize (appendCh w))
                                  (Some e) None\<rparr>"
  | (created) taskIDs tasks rid mrl r e where
      "newTaskIDs env (Suc (length (take maxTaskBatchSize (appendCh w)))) = (taskIDs, None)"
      "buildTasks taskIDs 0 (request # take maxTaskBatchSize (appendCh w)) [] 0 0
         = Inr (tasks, rid, mrl)"
      "CreateTasks env \<lparr>DomainID = domainID (tlID w), TaskList = taskListName (tlID w),
             TaskListType = taskType (tlID w), Tasks = tasks, RangeID = rid\<rparr> = (r, e)"
      "w' = w\<lparr>appendCh := drop maxTaskBatchSize (appendCh w),
               maxReadLevel := (if mrl > 0 then mrl else maxReadLevel w),
               sent := sent w @ sendWriteResponse (request # take maxTaskBatchSize (appendCh w)) e r,
               createTasksCalls := createTasksCalls w @
                 [(\<lparr>DomainID = domainID (tlID w), TaskList = taskListName (tlID w),
                    TaskListType = taskType (tlID w), Tasks = tasks, RangeID = rid\<rparr>, r, e)]\<rparr>"
proof -
  let ?reqs = "request # take maxTaskBatchSize (appendCh w)"
  obtain taskIDs eo where ids: "newTaskIDs env (Suc (length (take maxTaskBatchSize (appendCh w)))) = (taskIDs, eo)"
    by (cases "newTaskIDs env (Suc (length (take maxTaskBatchSize (appendCh w))))")
  show thesis
  proof (cases eo)
    case (Some e)
    with ret ids have "w' = w\<lparr>appendCh := drop maxTaskBatchSize (appendCh w),
               sent := sent w @ sendWriteResponse ?reqs (Some e) None\<rparr>"
      by (simp add: writeBatch_def getWriteBatch_take_drop)
    with ids Some show thesis by (intro allocation_failed) simp_all
  next
    case None
    show thesis
    proof (cases "buildTasks taskIDs 0 ?reqs [] 0 0")
      case (Inl f)
      with ret ids None show thesis
        by (simp add: writeBatch_def getWriteBatch_take_drop)
    next
      case (Inr t)
      obtain tasks rid mrl where t: "t = (tasks, rid, mrl)" by (cases t)
      let ?cr = "\<lparr>DomainID = domainID (tlID w), TaskList = taskListName (tlID w),
             TaskListType = taskType (tlID w), Tasks = tasks, RangeID = rid\<rparr>"
      obtain r e where ct: "CreateTasks env ?cr = (r, e)" by (cases "CreateTasks env ?cr")
      from ret ids None Inr t ct have "w' = w\<lparr>appendCh := drop maxTaskBatchSize (appendCh w),
               maxReadLevel := (if mrl > 0 then mrl else maxReadLevel w),
               sent := sent w @ sendWriteResponse ?reqs e r,
               createTasksCalls := createTasksCalls w @ [(?cr, r, e)]\<rparr>"
        by (simp add: writeBatch_def getWriteBatch_take_drop Let_def)
      with ids None Inr t ct show thesis by (intro created) simp_all
    qed
  qed
qed

lemma step_cases:
  assumes ret: "taskWriterLoop_step env c w = Returns w'"
  obtains
    (not_running) "loop w \<noteq> Running" "w' = w"
  | (shutdown) "loop w = Running" "c = RecvShutdown" "shutdownCh_closed w"
      "w' = w\<lparr>loop := Exited, appendCh_closed := True\<rparr>"
  | (batch) request chan where "loop w = Running" "c = RecvAppend"
      "appendCh w = request # chan"
      "writeBatch env (w\<lparr>appendCh := chan\<rparr>) request = Returns w'"
proof (cases "loop w = Running")
  case False
  with ret show thesis by (intro not_running) (simp_all add: taskWriterLoop_step_def)
next
  case True
  show thesis
  proof (cases c)
    case RecvShutdown
    with ret True show thesis
      by (intro shutdown) (simp_all add: taskWriterLoop_step_def split: if_splits)
  next
    case RecvAppend
    show thesis
    proof (cases "appendCh w")
      case Nil
      with ret True RecvAppend show thesis by (simp add: taskWriterLoop_step_def)
    next
      case (Cons request chan)
      with ret True RecvAppend show thesis
        by (intro batch [of request chan]) (simp_all add: taskWriterLoop_step_def)
    qed
  qed
qed

lemma batchOf_Cons:
  "appendCh w = request # chan \<Longrightarrow> batchOf w = request # take maxTaskBatchSize chan"
  by (simp add: batchOf_def getWriteBatch_take_drop)

lemma iteration_cases:
  assumes step: "taskWriterLoop_step env c w = Returns w'"
  obtains
    (not_running) "loop w \<noteq> Running" "w' = w"
  | (shutdown) "loop w = Running" "c = RecvShutdown" "shutdownCh_closed w"
      "w' = w\<lparr>loop := Exited, appendCh_closed := True\<rparr>"
  | (allocation_failed) taskIDs e where
      "loop w = Running" "c = RecvAppend" "batchOf w \<noteq> []"
      "newTaskIDs env (length (batchOf w)) = (taskIDs, Some e)"
      "w' = w\<lparr>appendCh := drop (Suc maxTaskBatchSize) (appendCh w),
               sent := sent w @ sendWriteResponse (batchOf w) (Some e) None\<rparr>"
  | (created) taskIDs tasks rid mrl r e cr where
      "loop w = Running" "c = RecvAppend" "batchOf w \<noteq> []"
      "newTaskIDs env (length (batchOf w)) = (taskIDs, None)"
      "buildTasks taskIDs 0 (batchOf w) [] 0 0 = Inr (tasks, rid, mrl)"
      "cr = \<lparr>DomainID = domainID (tlID w), TaskList = taskListName (tlID w),
              TaskListType = taskType (tlID w), Tasks = tasks, RangeID = rid\<rparr>"
      "CreateTasks env cr = (r, e)"
      "w' = w\<lparr>appendCh := drop (Suc maxTaskBatchSize) (appendCh w),
               maxReadLevel := (if mrl > 0 then mrl else maxReadLevel w),
               sent := sent w @ sendWriteResponse (batchOf w) e r,
               createTasksCalls := createTasksCalls w @ [(cr, r, e)]\<rparr>"
  using step
proof (cases rule: step_cases)
  case not_running
  then show thesis by (rule that(1))
next
  case shutdown
  then show thesis by (rule that(2))
next
  case (batch request chan)
  have b: "batchOf w = request # take maxTaskBatchSize chan"
    using batch(3) by (rule batchOf_Cons)
  have d: "drop (Suc maxTaskBatchSize) (appendCh w) = drop maxTaskBatchSize chan"
    using batch(3) by simp
  from batch(4) show thesis
  proof (cases rule: writeBatch_cases)
    case (allocation_failed taskIDs e)
    show thesis
    proof (rule that(3) [of taskIDs e])
      show "loop w = Running" "c = RecvAppend" by (rule batch)+
      show "batchOf w \<noteq> []" using b by simp
      show "newTaskIDs env (length (batchOf w)) = (taskIDs, Some e)"
        using allocation_failed(1) b by simp
      show "w' = w\<lparr>appendCh := drop (Suc maxTaskBatchSize) (appendCh w),
               sent := sent w @ sendWriteResponse (batchOf w) (Some e) None\<rparr>"
        using allocation_failed(2) b d by simp
    qed
  next
    case (created taskIDs tasks rid mrl r e)
    show thesis
    proof (rule that(4) [of taskIDs tasks rid mrl _ r e])
      show "loop w = Running" "c = RecvAppend" by (rule batch)+
      show "batchOf w \<noteq> []" using b by simp
      show "newTaskIDs env (length (batchOf w)) = (taskIDs, None)"
        using created(1) b by simp
      show "buildTasks taskIDs 0 (batchOf w) [] 0 0 = Inr (tasks, rid, mrl)"
        using created(2) b by (simp del: buildTasks.simps)
      show "\<lparr>DomainID = domainID (tlID w), TaskList = taskListName (tlID w),
              TaskListType = taskType (tlID w), Tasks = tasks, RangeID = rid\<rparr>
            = \<lparr>DomainID = domainID (tlID w), TaskList = taskListName (tlID w),
              TaskListType = taskType (tlID w), Tasks = tasks, RangeID = rid\<rparr>" ..
      show "CreateTasks env \<lparr>DomainID = domainID (tlID w), TaskList = taskListName (tlID w),
              TaskListType = taskType (tlID w), Tasks = tasks, RangeID = rid\<rparr> = (r, e)"
        using created(3) by simp
      show "w' = w\<lparr>appendCh := drop (Suc maxTaskBatchSize) (appendCh w),
               maxReadLevel := (if mrl > 0 then mrl else maxReadLevel w),
               sent := sent w @ sendWriteResponse (batchOf w) e r,
               createTasksCalls := createTasksCalls w @
                 [(\<lparr>DomainID = domainID (tlID w), TaskList = taskListName (tlID w),
              TaskListType = taskType (tlID w), Tasks = tasks, RangeID = rid\<rparr>, r, e)]\<rparr>"
        using created(4) b d by simp
    qed
  qed
qed

lemma buildTasks_last:
  assumes bt: "buildTasks taskIDs 0 reqs [] rid mrl = Inr (tasks, rid', mrl')"
    and ne: "reqs \<noteq> []"
  shows "tasks \<noteq> [] \<and> length tasks = length reqs \<and> mrl' = TaskID (last tasks)"
proof -
  from buildTasks_maxReadLevel [OF bt] ne
  have mrl: "mrl' = taskIDs ! (length reqs - 1)" and len: "length reqs \<le> length taskIDs"
    by simp_all
  from buildTasks_TaskIDs [OF bt] have ids: "map TaskID tasks = take (length reqs) taskIDs"
    by simp
  then have "length (map TaskID tasks) = length (take (length reqs) taskIDs)" by simp
  with len have l: "length tasks = length reqs" by simp
  with ne have t: "tasks \<noteq> []" by auto
  then have "TaskID (last tasks) = last (map TaskID tasks)" by (simp add: last_map)
  also have "\<dots> = last (take (length reqs) taskIDs)" using ids by simp
  also have "\<dots> = take (length reqs) taskIDs ! (length reqs - 1)"
    using len ne by (subst last_conv_nth) (auto simp: min_absorb2)
  also have "\<dots> = taskIDs ! (length reqs - 1)"
    using ne by simp
  finally show ?thesis using mrl l t by simp
qed

lemma buildTasks_succeeds:
  "i + length reqs \<le> length taskIDs \<Longrightarrow> list_all (\<lambda>req. execution req \<noteq> None) reqs \<Longrightarrow>
     \<exists>t. buildTasks taskIDs i reqs tasks rid mrl = Inr t"
proof (induction reqs arbitrary: i tasks rid mrl)
  case Nil
  then show ?case by simp
next
  case (Cons req reqs)
  from Cons.prems obtain ex where ex: "execution req = Some ex" by auto
  from Cons.prems have i: "i < length taskIDs" by simp
  from Cons.prems have "Suc i + length reqs \<le> length taskIDs"
    and "list_all (\<lambda>req. execution req \<noteq> None) reqs" by simp_all
  from Cons.IH [OF this] ex i show ?case by simp
qed

lemma step_returns:
  assumes running: "loop w = Running" and ne: "appendCh w \<noteq> []"
    and ids: "newTaskIDs env (length (batchOf w)) = (taskIDs, None)"
    and len: "length (batchOf w) \<le> length taskIDs"
    and ex: "list_all (\<lambda>req. execution req \<noteq> None) (batchOf w)"
  shows "\<exists>w' cr res. taskWriterLoop_step env RecvAppend w = Returns w'
           \<and> createTasksCalls w' = createTasksCalls w @ [(cr, res)]
           \<and> length (Tasks cr) = length (batchOf w)"
proof -
  from ne obtain request chan where ch: "appendCh w = request # chan"
    by (cases "appendCh w") simp_all
  then have b: "batchOf w = request # take maxTaskBatchSize chan" by (rule batchOf_Cons)
  from len ex obtain t where "buildTasks taskIDs 0 (batchOf w) [] 0 0 = Inr t"
    using buildTasks_succeeds [of 0 "batchOf w" taskIDs "[]" 0 0] by auto
  then obtain tasks rid mrl where
    bt: "buildTasks taskIDs 0 (batchOf w) [] 0 0 = Inr (tasks, rid, mrl)"
    by (cases t) auto
  have bne: "batchOf w \<noteq> []" using b by simp
  from buildTasks_last [OF bt bne] have l: "length tasks = length (batchOf w)" by simp
  let ?cr = "\<lparr>DomainID = domainID (tlID w), TaskList = taskListName (tlID w),
                TaskListType = taskType (tlID w), Tasks = tasks, RangeID = rid\<rparr>"
  obtain r e where ct: "CreateTasks env ?cr = (r, e)" by (cases "CreateTasks env ?cr")
  from bt b have bt': "buildTasks taskIDs 0 (request # take maxTaskBatchSize chan) [] 0 0
      = Inr (tasks, rid, mrl)" by simp
  from ids b have ids': "newTaskIDs env (Suc (length (take maxTaskBatchSize chan))) = (taskIDs, None)"
    by simp
  have "taskWriterLoop_step env RecvAppend w =
      Returns (w\<lparr>appendCh := drop maxTaskBatchSize chan,
                 maxReadLevel := (if mrl > 0 then mrl else maxReadLevel w),
                 sent := sent w @ sendWriteResponse (request # take maxTaskBatchSize chan) e r,
                 createTasksCalls := createTasksCalls w @ [(?cr, r, e)]\<rparr>)"
    using running ch ids' bt' ct
    by (simp add: taskWriterLoop_step_def writeBatch_def getWriteBatch_take_drop
          del: buildTasks.simps)
  with l show ?thesis by simp
qed

lemma length_batchOf: "length (batchOf w) \<le> Suc maxTaskBatchSize"
  by (simp add: batchOf_take)

subsection \<open>Concrete passes of the loop\<close>

lemma allocateFrom_1: "allocateFrom a (Suc 0) = ([a], None)"
  by (simp add: allocateFrom_def)

lemma allocateFrom_2: "allocateFrom a (Suc (Suc 0)) = ([a, a + 1], None)"
  by (simp add: allocateFrom_def upt_rec)

lemma step_twoPending_failing:
  "taskWriterLoop_step failingStore RecvAppend twoPending
     = Returns (afterTwo None (Some (OtherError ''FAILED'')))"
  by (simp add: taskWriterLoop_step_def writeBatch_def getWriteBatch_def runningWriter_def
       Start_def int64_pred_def newTaskWriter_def exampleRequest_def failingStore_def allocateFrom_2
       storeFails_def exampleList_def sendWriteResponse_def maxTaskBatchSize_def
       twoPending_def afterTwo_def twoTasksRequest_def)

lemma step_twoPending_accepting:
  "taskWriterLoop_step acceptingStore RecvAppend twoPending
     = Returns (afterTwo (Some (CreateTasksResponse 0)) None)"
  by (simp add: taskWriterLoop_step_def writeBatch_def getWriteBatch_def runningWriter_def
       Start_def int64_pred_def newTaskWriter_def exampleRequest_def acceptingStore_def allocateFrom_2
       storeAccepts_def exampleList_def sendWriteResponse_def maxTaskBatchSize_def
       twoPending_def afterTwo_def twoTasksRequest_def)

lemma batchOf_twoPending: "batchOf twoPending = [exampleRequest 1 3, exampleRequest 2 7]"
  by (simp add: batchOf_Cons twoPending_def runningWriter_def maxTaskBatchSize_def)

lemma twoPending_fields:
  "createTasksCalls twoPending = []" "sent twoPending = []" "loop twoPending = Running"
  "maxReadLevel twoPending = 0" "appendCh_closed twoPending = False"
  by (simp_all add: twoPending_def runningWriter_def Start_def int64_pred_def newTaskWriter_def)

lemma afterTwo_fields:
  "createTasksCalls (afterTwo r e) = [(twoTasksRequest, r, e)]"
  "sent (afterTwo r e) = [(1, \<lparr>err = e, persistenceResponse = r\<rparr>),
                          (2, \<lparr>err = e, persistenceResponse = r\<rparr>)]"
  "maxReadLevel (afterTwo r e) = 6"
  by (simp_all add: afterTwo_def)

lemma runningWriter_fields:
  "appendCh (runningWriter p) = p" "loop (runningWriter p) = Running"
  "createTasksCalls (runningWriter p) = []" "sent (runningWriter p) = []"
  "appendCh_closed (runningWriter p) = False"
  by (simp_all add: runningWriter_def Start_def int64_pred_def newTaskWriter_def)

lemma pendingRequests_execution:
  "list_all (\<lambda>req. execution req \<noteq> None) (take n (pendingRequests m))"
  by (auto simp: list_all_iff pendingRequests_def exampleRequest_def dest!: in_set_takeD)

lemma stoppedWriter_fields:
  "appendCh (stoppedWriter p) = p" "loop (stoppedWriter p) = Exited"
  "sent (stoppedWriter p) = []" "appendCh_closed (stoppedWriter p) = True"
  by (simp_all add: stoppedWriter_def runningWriter_fields)

lemma step_shutdown_example:
  "taskWriterLoop_step env RecvShutdown ((runningWriter p)\<lparr>shutdownCh_closed := True\<rparr>)
     = Returns (stoppedWriter p)"
  by (simp add: taskWriterLoop_step_def stoppedWriter_def runningWriter_fields)

subsection \<open>Backpressure of \<open>appendTask\<close>\<close>

lemma length_pendingRequests: "length (pendingRequests n) = n"
  by (simp add: pendingRequests_def)

text \<open>
  Claim C1, as amended. For every call to \<open>appendTask\<close> made while the submit channel is
  open: if the channel holds \<open>outstandingTaskAppendsThreshold\<close> requests the call returns
  \<open>(nil, service-busy)\<close> at once and leaves the writer as it was; if it holds fewer, the
  request is appended to the channel and the caller is parked in the receive on its own
  response channel, from which it returns exactly the response and error it receives.
\<close>

theorem appendTask_backpressure:
  assumes "\<not> appendCh_closed w"
  shows "(length (appendCh w) = outstandingTaskAppendsThreshold \<longrightarrow>
            appendTask w ex ti rid ch = Returns (Returned None (Some ServiceBusyError), w))
       \<and> (length (appendCh w) < outstandingTaskAppendsThreshold \<longrightarrow>
            appendTask w ex ti rid ch =
              Returns (AwaitsResponse ch,
                w\<lparr>appendCh := appendCh w @
                    [\<lparr>execution = ex, taskInfo = ti, rangeID = rid, responseCh = ch\<rparr>]\<rparr>))
       \<and> appendTask_receive r = Returned (persistenceResponse r) (err r)"
  using assms by (simp add: appendTask_def appendTask_receive_def)

text \<open>
  The 251st submission to a running writer whose loop is not draining is refused; a
  submission to a running writer with an empty channel is enqueued.
\<close>

theorem appendTask_backpressure_witness:
  "appendTask (runningWriter (pendingRequests 250)) None None 1 251
     = Returns (Returned None (Some ServiceBusyError), runningWriter (pendingRequests 250))
   \<and> appendTask (runningWriter []) None None 1 0
     = Returns (AwaitsResponse 0,
         (runningWriter [])\<lparr>appendCh :=
             [\<lparr>execution = None, taskInfo = None, rangeID = 1, responseCh = 0\<rparr>]\<rparr>)"
proof -
  have open1: "\<not> appendCh_closed (runningWriter (pendingRequests 250))"
    and open2: "\<not> appendCh_closed (runningWriter [])"
    by (simp_all add: runningWriter_def Start_def int64_pred_def newTaskWriter_def)
  have full: "length (appendCh (runningWriter (pendingRequests 250)))
                = outstandingTaskAppendsThreshold"
    by (simp add: runningWriter_def length_pendingRequests outstandingTaskAppendsThreshold_def)
  have room: "length (appendCh (runningWriter [])) < outstandingTaskAppendsThreshold"
    by (simp add: runningWriter_def outstandingTaskAppendsThreshold_def)
  have e: "appendCh (runningWriter []) = []" by (simp add: runningWriter_def)
  from appendTask_backpressure [OF open1, of None None 1 251] full
       appendTask_backpressure [OF open2, of None None 1 0] room e
  show ?thesis by simp
qed

text \<open>
  Claim C1 as stated fails once the loop has left: with 250 requests waiting and the
  shutdown channel closed, the shutdown case closes the full submit channel, and the
  next \<open>appendTask\<close> panics in its send instead of returning service-busy.
\<close>

theorem appendTask_closed_counterexample:
  "taskWriterLoop_step acceptingStore RecvShutdown
       ((runningWriter (pendingRequests 250))\<lparr>shutdownCh_closed := True\<rparr>)
     = Returns (stoppedWriter (pendingRequests 250))
   \<and> length (appendCh (stoppedWriter (pendingRequests 250))) = outstandingTaskAppendsThreshold
   \<and> appendTask (stoppedWriter (pendingRequests 250)) None None 1 251
       = Panics SendOnClosedChannel"
  by (simp add: taskWriterLoop_step_def stoppedWriter_def runningWriter_def Start_def int64_pred_def
        newTaskWriter_def appendTask_def length_pendingRequests
        outstandingTaskAppendsThreshold_def)

subsection \<open>The range ID of a committed batch\<close>

lemma rangeID_from_seed:
  assumes step: "taskWriterLoop_step env c w = Returns w'"
    and call: "createTasksCalls w' = createTasksCalls w @ [(cr, res)]"
  shows "RangeID cr = max 0 (Max (rangeID ` set (batchOf w)))
       \<and> (\<forall>req \<in> set (batchOf w). rangeID req \<le> RangeID cr)"
  using step
proof (cases rule: iteration_cases)
  case not_running
  with call show ?thesis by simp
next
  case shutdown
  with call show ?thesis by simp
next
  case (allocation_failed taskIDs e)
  with call show ?thesis by simp
next
  case (created taskIDs tasks rid mrl r e cr')
  from created(8) have "createTasksCalls w' = createTasksCalls w @ [(cr', r, e)]"
    by simp
  with call have "cr = cr'" by simp
  with created(6) have cr: "RangeID cr = rid" by simp
  from created(5) have "rid = Max (insert 0 (rangeID ` set (batchOf w)))"
    by (rule buildTasks_rangeID)
  with cr have m: "RangeID cr = Max (insert 0 (rangeID ` set (batchOf w)))" by simp
  have fin: "finite (rangeID ` set (batchOf w))" by simp
  have ne: "rangeID ` set (batchOf w) \<noteq> {}" using created(3) by simp
  from m fin ne have "RangeID cr = max 0 (Max (rangeID ` set (batchOf w)))"
    by simp
  moreover have "\<forall>req \<in> set (batchOf w). rangeID req \<le> RangeID cr"
    using m fin by (simp add: Max_ge)
  ultimately show ?thesis by simp
qed

text \<open>
  Claim C3. A range ID is a lease epoch: the epochs of a task list count up from a
  non-negative start. For every batch the writer commits, the range ID passed to
  \<open>CreateTasks\<close> is never lower than the range ID carried by any request of the batch,
  and it equals the maximum of the carried range IDs whenever at least one request of the
  batch carries a non-negative one, so for every batch of lease epochs.
\<close>

theorem committed_rangeID_is_max:
  assumes step: "taskWriterLoop_step env c w = Returns w'"
    and call: "createTasksCalls w' = createTasksCalls w @ [(cr, res)]"
  shows "(\<forall>req \<in> set (batchOf w). rangeID req \<le> RangeID cr)
       \<and> ((\<exists>req \<in> set (batchOf w). 0 \<le> rangeID req) \<longrightarrow>
             RangeID cr = Max (rangeID ` set (batchOf w)))"
proof -
  note both = rangeID_from_seed [OF step call]
  from both have seed: "RangeID cr = max 0 (Max (rangeID ` set (batchOf w)))"
    by (rule conjunct1)
  from both have ge: "\<forall>req \<in> set (batchOf w). rangeID req \<le> RangeID cr"
    by (rule conjunct2)
  have "RangeID cr = Max (rangeID ` set (batchOf w))"
    if "\<exists>req \<in> set (batchOf w). 0 \<le> rangeID req"
  proof -
    from that obtain req where req: "req \<in> set (batchOf w)" and nn: "0 \<le> rangeID req"
      by blast
    from req have "rangeID req \<le> Max (rangeID ` set (batchOf w))"
      by (intro Max_ge) simp_all
    with nn have "0 \<le> Max (rangeID ` set (batchOf w))" by simp
    with seed show ?thesis by simp
  qed
  with ge show ?thesis by blast
qed

text \<open>A batch of two requests with range IDs 3 and 7 is committed with range ID 7.\<close>

theorem committed_rangeID_is_max_witness:
  "taskWriterLoop_step acceptingStore RecvAppend twoPending
     = Returns (afterTwo (Some (CreateTasksResponse 0)) None)
   \<and> createTasksCalls (afterTwo (Some (CreateTasksResponse 0)) None)
     = createTasksCalls twoPending @ [(twoTasksRequest, Some (CreateTasksResponse 0), None)]
   \<and> batchOf twoPending = [exampleRequest 1 3, exampleRequest 2 7]
   \<and> 0 \<le> rangeID (exampleRequest 1 3)
   \<and> RangeID twoTasksRequest = Max (rangeID ` set (batchOf twoPending))
   \<and> RangeID twoTasksRequest = 7
   \<and> rangeID (exampleRequest 1 3) \<le> RangeID twoTasksRequest
   \<and> rangeID (exampleRequest 2 7) \<le> RangeID twoTasksRequest"
proof -
  have call: "createTasksCalls (afterTwo (Some (CreateTasksResponse 0)) None)
     = createTasksCalls twoPending @ [(twoTasksRequest, Some (CreateTasksResponse 0), None)]"
    by (simp add: afterTwo_fields twoPending_fields)
  have nn: "\<exists>req \<in> set (batchOf twoPending). 0 \<le> rangeID req"
    by (simp add: batchOf_twoPending exampleRequest_def)
  from committed_rangeID_is_max [OF step_twoPending_accepting call] nn
  have "RangeID twoTasksRequest = Max (rangeID ` set (batchOf twoPending))"
    by blast
  moreover have "RangeID twoTasksRequest = 7" by (simp add: twoTasksRequest_def)
  moreover have "rangeID (exampleRequest 1 3) = 3" "rangeID (exampleRequest 2 7) = 7"
    by (simp_all add: exampleRequest_def)
  ultimately show ?thesis
    using step_twoPending_accepting call batchOf_twoPending by simp
qed

subsection \<open>The published read level\<close>

lemma sorted_last_Max:
  fixes xs :: "int list"
  assumes "sorted xs" and "xs \<noteq> []"
  shows "last xs = Max (set xs)"
proof -
  have "Max (set xs) = last xs"
  proof (rule Max_eqI)
    show "finite (set xs)" by simp
    show "last xs \<in> set xs" using assms(2) by simp
    fix y assume "y \<in> set xs"
    then obtain i where i: "i < length xs" and y: "y = xs ! i"
      by (auto simp: in_set_conv_nth)
    from i have "i \<le> length xs - 1" by simp
    with assms(1) i have "xs ! i \<le> xs ! (length xs - 1)"
      by (intro sorted_nth_mono) simp_all
    with y assms(2) show "y \<le> last xs" by (simp add: last_conv_nth)
  qed
  then show ?thesis by simp
qed

text \<open>
  Claim C2, as amended. A pass of the writer loop that makes no \<open>CreateTasks\<close> call
  leaves the read level as it was. A pass that calls \<open>CreateTasks\<close> publishes, after
  the call has returned and whether it succeeded or failed, the task ID of the last task
  of the batch as the new read level, provided that ID is positive; for ascending task
  IDs the last one is the maximum of the batch. So \<open>GetMaxReadLevel\<close> can move past
  task IDs whose \<open>CreateTasks\<close> call failed.
\<close>

theorem maxReadLevel_published:
  assumes step: "taskWriterLoop_step env c w = Returns w'"
  shows "(createTasksCalls w' = createTasksCalls w \<longrightarrow> GetMaxReadLevel w' = GetMaxReadLevel w)
       \<and> (\<forall>cr r e. createTasksCalls w' = createTasksCalls w @ [(cr, r, e)] \<longrightarrow>
             Tasks cr \<noteq> []
             \<and> GetMaxReadLevel w' =
                 (if TaskID (last (Tasks cr)) > 0 then TaskID (last (Tasks cr))
                  else GetMaxReadLevel w)
             \<and> (sorted (map TaskID (Tasks cr)) \<longrightarrow>
                  TaskID (last (Tasks cr)) = Max (TaskID ` set (Tasks cr))))"
  using step
proof (cases rule: iteration_cases)
  case not_running
  then show ?thesis by simp
next
  case shutdown
  then show ?thesis by (simp add: GetMaxReadLevel_def)
next
  case (allocation_failed taskIDs e)
  then show ?thesis by (simp add: GetMaxReadLevel_def)
next
  case (created taskIDs tasks rid mrl r e cr')
  from created(8) have calls: "createTasksCalls w' = createTasksCalls w @ [(cr', r, e)]"
    and lvl: "maxReadLevel w' = (if mrl > 0 then mrl else maxReadLevel w)"
    by simp_all
  from buildTasks_last [OF created(5) created(3)]
  have t: "tasks \<noteq> []" and m: "mrl = TaskID (last tasks)" by simp_all
  from created(6) have tc: "Tasks cr' = tasks" by simp
  have srt: "sorted (map TaskID tasks) \<longrightarrow> TaskID (last tasks) = Max (TaskID ` set tasks)"
  proof
    assume "sorted (map TaskID tasks)"
    then have "last (map TaskID tasks) = Max (set (map TaskID tasks))"
      using t by (intro sorted_last_Max) simp_all
    with t show "TaskID (last tasks) = Max (TaskID ` set tasks)" by (simp add: last_map)
  qed
  show ?thesis
  proof (intro conjI allI impI)
    assume "createTasksCalls w' = createTasksCalls w"
    with calls show "GetMaxReadLevel w' = GetMaxReadLevel w" by simp
  next
    fix cr r' e' assume "createTasksCalls w' = createTasksCalls w @ [(cr, r', e')]"
    with calls have eq: "cr = cr'" by simp
    with tc t show "Tasks cr \<noteq> []" by simp
    from eq tc lvl m show "GetMaxReadLevel w' =
       (if TaskID (last (Tasks cr)) > 0 then TaskID (last (Tasks cr)) else GetMaxReadLevel w)"
      by (simp add: GetMaxReadLevel_def)
    assume "sorted (map TaskID (Tasks cr))"
    with eq tc srt show "TaskID (last (Tasks cr)) = Max (TaskID ` set (Tasks cr))" by simp
  qed
qed

text \<open>The store refuses a batch with the task IDs 5 and 6; the read level becomes 6.\<close>

theorem maxReadLevel_published_witness:
  "taskWriterLoop_step failingStore RecvAppend twoPending
     = Returns (afterTwo None (Some (OtherError ''FAILED'')))
   \<and> createTasksCalls (afterTwo None (Some (OtherError ''FAILED'')))
       = createTasksCalls twoPending @ [(twoTasksRequest, None, Some (OtherError ''FAILED''))]
   \<and> sorted (map TaskID (Tasks twoTasksRequest))
   \<and> TaskID (last (Tasks twoTasksRequest)) = Max (TaskID ` set (Tasks twoTasksRequest))
   \<and> GetMaxReadLevel (afterTwo None (Some (OtherError ''FAILED'')))
       = TaskID (last (Tasks twoTasksRequest))"
proof -
  have call: "createTasksCalls (afterTwo None (Some (OtherError ''FAILED'')))
       = createTasksCalls twoPending @ [(twoTasksRequest, None, Some (OtherError ''FAILED''))]"
    by (simp add: afterTwo_fields twoPending_fields)
  have srt: "sorted (map TaskID (Tasks twoTasksRequest))"
    and pos: "TaskID (last (Tasks twoTasksRequest)) > 0"
    by (simp_all add: twoTasksRequest_def)
  from maxReadLevel_published [OF step_twoPending_failing] call srt pos
  have "TaskID (last (Tasks twoTasksRequest)) = Max (TaskID ` set (Tasks twoTasksRequest))
      \<and> GetMaxReadLevel (afterTwo None (Some (OtherError ''FAILED'')))
           = TaskID (last (Tasks twoTasksRequest))"
    by (auto simp del: Max_insert)
  with step_twoPending_failing call srt show ?thesis by simp
qed

text \<open>
  Claim C2 as stated fails: the read level is 0, the only \<open>CreateTasks\<close> call of the
  writer fails, nothing was committed, and \<open>GetMaxReadLevel\<close> is 6 afterwards.
\<close>

theorem maxReadLevel_counterexample:
  "GetMaxReadLevel twoPending = 0
   \<and> taskWriterLoop_step failingStore RecvAppend twoPending
       = Returns (afterTwo None (Some (OtherError ''FAILED'')))
   \<and> createTasksCalls (afterTwo None (Some (OtherError ''FAILED'')))
       = [(twoTasksRequest, None, Some (OtherError ''FAILED''))]
   \<and> CreateTasks failingStore twoTasksRequest = (None, Some (OtherError ''FAILED''))
   \<and> GetMaxReadLevel (afterTwo None (Some (OtherError ''FAILED''))) = 6"
  using step_twoPending_failing
  by (simp add: GetMaxReadLevel_def twoPending_fields afterTwo_fields failingStore_def
        storeFails_def)

subsection \<open>One outcome for the whole batch\<close>

text \<open>
  Claim C8. Every pass of the running writer loop through the receive case sends one
  and the same response to every request of its batch, each on the request's own response
  channel, and sends nothing else. If the pass called \<open>CreateTasks\<close>, that response
  carries exactly the response and the error the call returned (so a nil error and the
  shared persistence response on success, the one error on failure); if it made no call,
  it carries the error of the failed task ID allocation and a nil response.
\<close>
theorem batch_shares_outcome:
  assumes step: "taskWriterLoop_step env RecvAppend w = Returns w'"
    and running: "loop w = Running"
  shows "\<exists>resp. sent w' = sent w @ map (\<lambda>req. (responseCh req, resp)) (batchOf w)
       \<and> (\<forall>cr r e. createTasksCalls w' = createTasksCalls w @ [(cr, r, e)] \<longrightarrow>
              CreateTasks env cr = (r, e) \<and> resp = \<lparr>err = e, persistenceResponse = r\<rparr>)
       \<and> (createTasksCalls w' = createTasksCalls w \<longrightarrow>
              (\<exists>e. snd (newTaskIDs env (length (batchOf w))) = Some e
                 \<and> resp = \<lparr>err = Some e, persistenceResponse = None\<rparr>))"
  using step
proof (cases rule: iteration_cases)
  case not_running
  with running show ?thesis by simp
next
  case shutdown
  then show ?thesis by simp
next
  case (allocation_failed taskIDs e)
  have "sent w' = sent w @ map (\<lambda>req. (responseCh req, \<lparr>err = Some e, persistenceResponse = None\<rparr>)) (batchOf w)"
    using allocation_failed(5) by (simp add: sendWriteResponse_def)
  moreover have "createTasksCalls w' = createTasksCalls w"
    using allocation_failed(5) by simp
  moreover have "snd (newTaskIDs env (length (batchOf w))) = Some e"
    using allocation_failed(4) by simp
  ultimately show ?thesis by auto
next
  case (created taskIDs tasks rid mrl r e cr')
  have s: "sent w' = sent w @ map (\<lambda>req. (responseCh req, \<lparr>err = e, persistenceResponse = r\<rparr>)) (batchOf w)"
    using created(8) by (simp add: sendWriteResponse_def)
  have c: "createTasksCalls w' = createTasksCalls w @ [(cr', r, e)]"
    using created(8) by simp
  show ?thesis
  proof (intro exI [of _ "\<lparr>err = e, persistenceResponse = r\<rparr>"] conjI allI impI)
    show "sent w' = sent w @ map (\<lambda>req. (responseCh req, \<lparr>err = e, persistenceResponse = r\<rparr>)) (batchOf w)"
      by (rule s)
  next
    fix cr r' e' assume "createTasksCalls w' = createTasksCalls w @ [(cr, r', e')]"
    with c have "cr = cr'" "r' = r" "e' = e" by simp_all
    with created(7) show "CreateTasks env cr = (r', e')"
      and "\<lparr>err = e, persistenceResponse = r\<rparr> = \<lparr>err = e', persistenceResponse = r'\<rparr>"
      by simp_all
  next
    assume "createTasksCalls w' = createTasksCalls w"
    with c show "\<exists>e'. snd (newTaskIDs env (length (batchOf w))) = Some e'
                 \<and> \<lparr>err = e, persistenceResponse = r\<rparr> = \<lparr>err = Some e', persistenceResponse = None\<rparr>"
      by simp
  qed
qed

text \<open>Both requests of an accepted batch receive the store's response and a nil error.\<close>

theorem batch_shares_outcome_witness:
  "taskWriterLoop_step acceptingStore RecvAppend twoPending
     = Returns (afterTwo (Some (CreateTasksResponse 0)) None)
   \<and> loop twoPending = Running
   \<and> sent (afterTwo (Some (CreateTasksResponse 0)) None)
       = sent twoPending @
           [(responseCh (exampleRequest 1 3),
               \<lparr>err = None, persistenceResponse = Some (CreateTasksResponse 0)\<rparr>),
            (responseCh (exampleRequest 2 7),
               \<lparr>err = None, persistenceResponse = Some (CreateTasksResponse 0)\<rparr>)]"
proof -
  have call: "createTasksCalls (afterTwo (Some (CreateTasksResponse 0)) None)
     = createTasksCalls twoPending @ [(twoTasksRequest, Some (CreateTasksResponse 0), None)]"
    by (simp add: afterTwo_fields twoPending_fields)
  from batch_shares_outcome [OF step_twoPending_accepting twoPending_fields(3)]
  obtain resp where
    s: "sent (afterTwo (Some (CreateTasksResponse 0)) None)
          = sent twoPending @ map (\<lambda>req. (responseCh req, resp)) (batchOf twoPending)"
    and r: "\<forall>cr r e. createTasksCalls (afterTwo (Some (CreateTasksResponse 0)) None)
                 = createTasksCalls twoPending @ [(cr, r, e)] \<longrightarrow>
              CreateTasks acceptingStore cr = (r, e) \<and> resp = \<lparr>err = e, persistenceResponse = r\<rparr>"
    by blast
  from r call have "resp = \<lparr>err = None, persistenceResponse = Some (CreateTasksResponse 0)\<rparr>"
    by blast
  with s step_twoPending_accepting twoPending_fields(3) show ?thesis
    by (simp add: batchOf_twoPending)
qed

subsection \<open>The size of a batch\<close>

text \<open>
  Claim C4 does not hold for the code: \<open>getWriteBatch\<close> runs its loop
  \<open>maxTaskBatchSize\<close> times on a batch that already holds the request received by
  the caller. With the channel full (250 requests waiting), the batch of the next pass
  has 101 requests, and the \<open>CreateTasks\<close> request of that pass has 101 tasks.
\<close>
theorem batch_of_101_requests:
  "length (appendCh (runningWriter (pendingRequests 250))) = outstandingTaskAppendsThreshold
   \<and> length (batchOf (runningWriter (pendingRequests 250))) = 101
   \<and> length (Tasks (fst (last (createTasksCalls (result
        (taskWriterLoop_step acceptingStore RecvAppend
           (runningWriter (pendingRequests 250)))))))) = 101"
proof -
  let ?w = "runningWriter (pendingRequests 250)"
  have b: "batchOf ?w = take 101 (pendingRequests 250)"
    by (simp add: batchOf_take runningWriter_fields maxTaskBatchSize_def)
  then have l: "length (batchOf ?w) = 101"
    by (simp add: length_pendingRequests)
  have ne: "appendCh ?w \<noteq> []"
    using length_pendingRequests [of 250] by (auto simp: runningWriter_fields)
  have ids: "newTaskIDs acceptingStore (length (batchOf ?w))
               = (map (\<lambda>k. 5 + int k) [0..<101], None)"
    by (simp add: l acceptingStore_def allocateFrom_def)
  have len: "length (batchOf ?w) \<le> length (map (\<lambda>k. 5 + int k) [0..<101])"
    by (simp add: l)
  have ex: "list_all (\<lambda>req. execution req \<noteq> None) (batchOf ?w)"
    unfolding b by (rule pendingRequests_execution)
  from step_returns [OF runningWriter_fields(2) ne ids len ex]
  obtain w' cr res where "taskWriterLoop_step acceptingStore RecvAppend ?w = Returns w'"
    and "createTasksCalls w' = createTasksCalls ?w @ [(cr, res)]"
    and "length (Tasks cr) = length (batchOf ?w)"
    by blast
  with l have "length (Tasks (fst (last (createTasksCalls (result
        (taskWriterLoop_step acceptingStore RecvAppend ?w)))))) = 101"
    by simp
  moreover have "length (appendCh ?w) = outstandingTaskAppendsThreshold"
    by (simp add: runningWriter_fields length_pendingRequests outstandingTaskAppendsThreshold_def)
  ultimately show ?thesis using l by simp
qed

subsection \<open>Shutdown\<close>

lemma pass_that_returns:
  assumes step: "taskWriterLoop_step env c w = Returns w'"
  shows "(loop w = Running \<and> c = RecvShutdown \<longrightarrow>
            loop w' = Exited \<and> appendCh_closed w'
            \<and> appendCh w' = appendCh w \<and> sent w' = sent w)
       \<and> (loop w = Exited \<longrightarrow> w' = w)
       \<and> (appendCh_closed w' \<and> \<not> appendCh_closed w \<longrightarrow>
            c = RecvShutdown \<and> loop w' = Exited \<and> sent w' = sent w)
       \<and> (loop w = Running \<and> c = RecvAppend \<longrightarrow>
            loop w' = Running \<and> appendCh_closed w' = appendCh_closed w
            \<and> map fst (drop (length (sent w)) (sent w')) = map responseCh (batchOf w))"
  using step
proof (cases rule: iteration_cases)
  case not_running
  then show ?thesis by simp
next
  case shutdown
  then show ?thesis by simp
next
  case (allocation_failed taskIDs e)
  then show ?thesis by (simp add: sendWriteResponse_def comp_def)
next
  case (created taskIDs tasks rid mrl r e cr)
  then show ?thesis by (simp add: sendWriteResponse_def comp_def)
qed

lemma pass_that_panics:
  assumes "taskWriterLoop_step env c w = Panics f"
  shows "loop w = Running \<and> c = RecvAppend \<and> appendCh w \<noteq> []"
proof (cases "loop w = Running")
  case False
  with assms show ?thesis by (simp add: taskWriterLoop_step_def)
next
  case True
  show ?thesis
  proof (cases c)
    case RecvShutdown
    with assms True show ?thesis
      by (simp add: taskWriterLoop_step_def split: if_splits)
  next
    case RecvAppend
    with assms True show ?thesis
      by (cases "appendCh w") (simp_all add: taskWriterLoop_step_def)
  qed
qed

lemma unwind_fields:
  assumes "appendCh w \<noteq> []"
  shows "loop (taskWriterLoop_unwind w) = Exited"
    and "appendCh_closed (taskWriterLoop_unwind w)"
    and "sent (taskWriterLoop_unwind w) = sent w"
    and "batchOf w @ appendCh (taskWriterLoop_unwind w) = appendCh w"
proof -
  from assms obtain request chan where ch: "appendCh w = request # chan"
    by (cases "appendCh w") simp_all
  then show "loop (taskWriterLoop_unwind w) = Exited"
    and "appendCh_closed (taskWriterLoop_unwind w)"
    and "sent (taskWriterLoop_unwind w) = sent w"
    by (simp_all add: taskWriterLoop_unwind_def)
  from ch show "batchOf w @ appendCh (taskWriterLoop_unwind w) = appendCh w"
    by (simp add: taskWriterLoop_unwind_def batchOf_Cons getWriteBatch_take_drop)
qed

lemma step_nilRequest:
  "taskWriterLoop_step acceptingStore RecvAppend (runningWriter [nilRequest 1])
     = Panics NilDereference"
  by (simp add: taskWriterLoop_step_def writeBatch_def getWriteBatch_def runningWriter_def
       Start_def int64_pred_def newTaskWriter_def nilRequest_def acceptingStore_def
       allocateFrom_1)

text \<open>
  Claim C6, as amended. When the running loop takes the shutdown case it leaves the loop
  and closes the submit channel; the requests still waiting in the channel stay there and
  nothing is sent to them, and after the loop has left no later pass changes anything.
  The submit channel is closed only by the deferred close, as the loop is left. A pass
  that completes closes it only if it is the shutdown pass; a pass through the receive
  case that completes does not close it, keeps the loop running and answers every
  request of its batch. The one way the loop is left with a batch in flight is a pass
  that panics (a nil execution pointer, or fewer task IDs than requests): then the
  deferred close runs with the batch taken from the channel and none of its requests
  answered.
\<close>

theorem shutdown_of_the_loop:
  "(taskWriterLoop_step env c w = Returns w' \<longrightarrow>
       (loop w = Running \<and> c = RecvShutdown \<longrightarrow>
            loop w' = Exited \<and> appendCh_closed w'
            \<and> appendCh w' = appendCh w \<and> sent w' = sent w)
       \<and> (loop w = Exited \<longrightarrow> w' = w)
       \<and> (appendCh_closed w' \<and> \<not> appendCh_closed w \<longrightarrow>
            c = RecvShutdown \<and> loop w' = Exited \<and> sent w' = sent w)
       \<and> (loop w = Running \<and> c = RecvAppend \<longrightarrow>
            loop w' = Running \<and> appendCh_closed w' = appendCh_closed w
            \<and> map fst (drop (length (sent w)) (sent w')) = map responseCh (batchOf w)))
   \<and> (taskWriterLoop_step env c w = Panics f \<longrightarrow>
         loop w = Running \<and> c = RecvAppend \<and> batchOf w \<noteq> []
         \<and> loop (taskWriterLoop_unwind w) = Exited
         \<and> appendCh_closed (taskWriterLoop_unwind w)
         \<and> sent (taskWriterLoop_unwind w) = sent w
         \<and> batchOf w @ appendCh (taskWriterLoop_unwind w) = appendCh w)"
proof (intro conjI impI)
  assume p: "taskWriterLoop_step env c w = Panics f"
  from pass_that_panics [OF p] show "loop w = Running" and "c = RecvAppend"
    by simp_all
  from pass_that_panics [OF p] have ne: "appendCh w \<noteq> []" by simp
  then show "batchOf w \<noteq> []" by (cases "appendCh w") (simp_all add: batchOf_Cons)
  from ne show "loop (taskWriterLoop_unwind w) = Exited"
    and "appendCh_closed (taskWriterLoop_unwind w)"
    and "sent (taskWriterLoop_unwind w) = sent w"
    and "batchOf w @ appendCh (taskWriterLoop_unwind w) = appendCh w"
    by (rule unwind_fields)+
qed (use pass_that_returns in blast)+

text \<open>
  A writer is shut down while one request is waiting in its channel; another writer
  receives a request with a nil execution pointer.
\<close>

theorem shutdown_of_the_loop_witness:
  "taskWriterLoop_step acceptingStore RecvShutdown
       ((runningWriter [exampleRequest 1 1])\<lparr>shutdownCh_closed := True\<rparr>)
     = Returns (stoppedWriter [exampleRequest 1 1])
   \<and> loop (stoppedWriter [exampleRequest 1 1]) = Exited
   \<and> appendCh_closed (stoppedWriter [exampleRequest 1 1])
   \<and> appendCh (stoppedWriter [exampleRequest 1 1]) = [exampleRequest 1 1]
   \<and> sent (stoppedWriter [exampleRequest 1 1]) = []
   \<and> taskWriterLoop_step acceptingStore RecvAppend (runningWriter [nilRequest 1])
       = Panics NilDereference
   \<and> loop (taskWriterLoop_unwind (runningWriter [nilRequest 1])) = Exited
   \<and> appendCh_closed (taskWriterLoop_unwind (runningWriter [nilRequest 1]))
   \<and> sent (taskWriterLoop_unwind (runningWriter [nilRequest 1])) = []
   \<and> batchOf (runningWriter [nilRequest 1])
        @ appendCh (taskWriterLoop_unwind (runningWriter [nilRequest 1])) = [nilRequest 1]"
proof -
  note s = step_shutdown_example [of acceptingStore "[exampleRequest 1 1]"]
  from shutdown_of_the_loop
         [of acceptingStore RecvShutdown
             "(runningWriter [exampleRequest 1 1])\<lparr>shutdownCh_closed := True\<rparr>"
             "stoppedWriter [exampleRequest 1 1]"] s
  have a: "loop (stoppedWriter [exampleRequest 1 1]) = Exited
     \<and> appendCh_closed (stoppedWriter [exampleRequest 1 1])
     \<and> appendCh (stoppedWriter [exampleRequest 1 1]) = [exampleRequest 1 1]
     \<and> sent (stoppedWriter [exampleRequest 1 1]) = []"
    by (simp add: runningWriter_fields)
  from shutdown_of_the_loop
         [of acceptingStore RecvAppend "runningWriter [nilRequest 1]" _ NilDereference]
       step_nilRequest
  have b: "loop (taskWriterLoop_unwind (runningWriter [nilRequest 1])) = Exited
     \<and> appendCh_closed (taskWriterLoop_unwind (runningWriter [nilRequest 1]))
     \<and> sent (taskWriterLoop_unwind (runningWriter [nilRequest 1])) = []
     \<and> batchOf (runningWriter [nilRequest 1])
          @ appendCh (taskWriterLoop_unwind (runningWriter [nilRequest 1])) = [nilRequest 1]"
    by (simp add: runningWriter_fields)
  from s a b step_nilRequest show ?thesis by simp
qed

text \<open>
  Claim C6 as stated fails: the request waiting at shutdown is still in the channel
  afterwards, no response (so no shutdown error) was sent on its response channel, and
  no further pass of the loop sends one.
\<close>

theorem shutdown_counterexample:
  "taskWriterLoop_step acceptingStore RecvShutdown
       ((runningWriter [exampleRequest 1 1])\<lparr>shutdownCh_closed := True\<rparr>)
     = Returns (stoppedWriter [exampleRequest 1 1])
   \<and> appendCh (stoppedWriter [exampleRequest 1 1]) = [exampleRequest 1 1]
   \<and> sent (stoppedWriter [exampleRequest 1 1]) = []
   \<and> taskWriterLoop_step acceptingStore RecvAppend (stoppedWriter [exampleRequest 1 1])
       = Returns (stoppedWriter [exampleRequest 1 1])
   \<and> taskWriterLoop_step acceptingStore RecvShutdown (stoppedWriter [exampleRequest 1 1])
       = Returns (stoppedWriter [exampleRequest 1 1])"
proof -
  have "taskWriterLoop_step acceptingStore c (stoppedWriter [exampleRequest 1 1])
          = Returns (stoppedWriter [exampleRequest 1 1])" for c
    by (simp add: taskWriterLoop_step_def stoppedWriter_fields)
  then show ?thesis
    by (simp only: step_shutdown_example stoppedWriter_fields simp_thms)
qed

section \<open>Properties of the visibility record of a closed execution\<close>

text \<open>
  Claim C7. For every request, \<open>RecordWorkflowExecutionClosed\<close> executes one logged
  batch of two statements. The insert into \<open>closed_executions\<close> is given, as its time to
  live, the request's \<open>RetentionSeconds\<close>, or 86400 when that is zero. The other
  statement of the same batch is the delete from \<open>open_executions\<close>, bound to the
  request's domain, the domain partition, its start time and its run ID. The call
  returns an internal service error exactly when executing that batch fails.
\<close>
theorem closed_row_ttl:
  "batchType (closedExecutionBatch toCQL request) = LoggedBatch
   \<and> closedRowTTLs (closedExecutionBatch toCQL request)
       = [Number (if RetentionSeconds request = 0 then 86400 else RetentionSeconds request)]
   \<and> entries (closedExecutionBatch toCQL request) ! 0
       = (templateDeleteWorkflowExecutionStarted,
          [Text (DomainUUID request), Number domainPartition,
           Number (toCQL (StartTimestamp request)),
           Text (GetRunId (ClosedExecution request))])
   \<and> length (entries (closedExecutionBatch toCQL request)) = 2
   \<and> RecordWorkflowExecutionClosed toCQL ExecuteBatch request
       = map_option (\<lambda>e. InternalServiceError
            (''RecordWorkflowExecutionClosed operation failed. Error: '' @ e))
           (ExecuteBatch (closedExecutionBatch toCQL request))"
proof -
  have ne: "templateDeleteWorkflowExecutionStarted \<noteq> templateCreateWorkflowExecutionClosed"
    by (simp add: templateDeleteWorkflowExecutionStarted_def
          templateCreateWorkflowExecutionClosed_def)
  have "RecordWorkflowExecutionClosed toCQL ExecuteBatch request
       = map_option (\<lambda>e. InternalServiceError
            (''RecordWorkflowExecutionClosed operation failed. Error: '' @ e))
           (ExecuteBatch (closedExecutionBatch toCQL request))"
    by (cases "ExecuteBatch (closedExecutionBatch toCQL request)")
       (simp_all add: RecordWorkflowExecutionClosed_def)
  with ne show ?thesis
    by (simp add: closedExecutionBatch_def closedRowTTLs_def NewBatch_def Query_def
          WithTimestamp_def defaultCloseTTLSeconds_def Let_def)
qed

text \<open>A request without a retention gets 86400 seconds, one with 3600 gets 3600.\<close>

theorem closed_row_ttl_witness:
  "closedRowTTLs (closedExecutionBatch nanoToMilli exampleClosedRequest) = [Number 86400]
   \<and> closedRowTTLs (closedExecutionBatch nanoToMilli
        (exampleClosedRequest\<lparr>RetentionSeconds := 3600\<rparr>)) = [Number 3600]"
  using closed_row_ttl [of nanoToMilli exampleClosedRequest]
    closed_row_ttl [of nanoToMilli "exampleClosedRequest\<lparr>RetentionSeconds := 3600\<rparr>"]
  by (simp add: exampleClosedRequest_def)

section \<open>Properties of stopping the matching service\<close>

text \<open>
  Claim C9. \<open>Stop\<close> always returns: it never parks and never panics. When no \<open>Start\<close>
  is parked in the receive on the stop channel, \<open>Stop\<close> changes nothing but the log:
  the signal is dropped, \<open>base.Stop()\<close> is not called, and a \<open>Start\<close> that reaches the
  receive afterwards parks there. \<open>base.Stop()\<close> is called as an effect of \<open>Stop\<close>
  exactly when a \<open>Start\<close> is parked in the receive, and then one parked \<open>Start\<close> is
  released.
\<close>
theorem stop_is_lossy:
  "(\<exists>s'. Service_Stop s = Returns s')
   \<and> (parked s = 0 \<longrightarrow>
        Service_Stop s = Returns (s\<lparr>logged := logged s @ [Stopped]\<rparr>)
        \<and> Service_Start False (result (Service_Stop s))
            = Some (s\<lparr>parked := 1, logged := logged s @ [Stopped, Starting, Started]\<rparr>))
   \<and> (baseStops (result (Service_Stop s)) \<noteq> baseStops s \<longleftrightarrow> parked s > 0)
   \<and> (parked s > 0 \<longrightarrow>
        Service_Stop s = Returns (s\<lparr>parked := parked s - 1, baseStops := Suc (baseStops s),
                                    logged := logged s @ [Stopped]\<rparr>))"
  by (simp add: Service_Stop_def Service_Start_def Let_def)

text \<open>
  A \<open>Stop\<close> before \<open>Start\<close> is lost and the later \<open>Start\<close> parks; a \<open>Stop\<close> that
  finds \<open>Start\<close> parked releases it.
\<close>

theorem stop_is_lossy_witness:
  "Service_Stop NewService = Returns (NewService\<lparr>logged := [Stopped]\<rparr>)
   \<and> Service_Start False (NewService\<lparr>logged := [Stopped]\<rparr>)
       = Some (NewService\<lparr>parked := 1, logged := [Stopped, Starting, Started]\<rparr>)
   \<and> Service_Stop (NewService\<lparr>parked := 1, logged := [Starting, Started]\<rparr>)
       = Returns (NewService\<lparr>parked := 0, baseStops := 1,
                     logged := [Starting, Started, Stopped]\<rparr>)"
proof -
  have a: "parked NewService = 0" "logged NewService = []"
    by (simp_all add: NewService_def)
  have b: "parked (NewService\<lparr>parked := 1, logged := [Starting, Started]\<rparr>) > 0" by simp
  from stop_is_lossy [of NewService] a
  have 1: "Service_Stop NewService = Returns (NewService\<lparr>logged := [Stopped]\<rparr>)"
    by simp
  from stop_is_lossy [of NewService] a
  have "Service_Start False (result (Service_Stop NewService))
       = Some (NewService\<lparr>parked := 1, logged := [] @ [Stopped, Starting, Started]\<rparr>)"
    by metis
  with 1 have 2: "Service_Start False (NewService\<lparr>logged := [Stopped]\<rparr>)
       = Some (NewService\<lparr>parked := 1, logged := [Stopped, Starting, Started]\<rparr>)"
    by simp
  from stop_is_lossy [of "NewService\<lparr>parked := 1, logged := [Starting, Started]\<rparr>"] b
  have 3: "Service_Stop (NewService\<lparr>parked := 1, logged := [Starting, Started]\<rparr>)
       = Returns (NewService\<lparr>parked := 0, baseStops := 1,
                     logged := [Starting, Started, Stopped]\<rparr>)"
    by (simp add: NewService_def)
  from 1 2 3 show ?thesis by simp
qed

section \<open>Properties of the metrics wrapper of the history client\<close>

text \<open>
  Claim C10. For each of the fourteen operations, every context, every request and every
  state, the wrapper returns exactly the response and the error of the wrapped client,
  and leaves behind the wrapped client exactly the state that one call of the wrapped
  client with the same context and request leaves. The metrics it emits do not enter
  the result.
\<close>
theorem metricClient_transparent:
  "fst (metricClient_respond client op ctx request (s, m)) = fst (respond client op ctx request s)
   \<and> fst (snd (metricClient_respond client op ctx request (s, m)))
       = snd (respond client op ctx request s)
   \<and> fst (metricClient_acknowledge client op' ctx request (s, m))
       = fst (acknowledge client op' ctx request s)
   \<and> fst (snd (metricClient_acknowledge client op' ctx request (s, m)))
       = snd (acknowledge client op' ctx request s)"
  by (simp add: metricClient_respond_def metricClient_acknowledge_def Let_def
        split: prod.splits)

section \<open>Properties of the timer queue processor\<close>

lemma fireTimer_retries:
  assumes "\<forall>i<k. attempts (n + i) = Some (reread (n + i))"
    and "stillValid now (mutableState (stored p)) (target task)"
    and "\<forall>i<k. stillValid now (mutableState (reread (n + i))) (target task)"
    and "attempts (n + k) = None"
    and "k < budget"
  shows "fireTimer attempts n budget now task p =
           p\<lparr>stored := fired (target task) (if k = 0 then stored p else reread (n + k - 1)),
             timerIndex := remove1 task (timerIndex p),
             timerFiredCount := Suc (timerFiredCount p)\<rparr>"
  using assms
proof (induction k arbitrary: n budget p)
  case 0
  then obtain b where "budget = Suc b" by (cases budget) simp_all
  with 0 show ?case by simp
next
  case (Suc k)
  from Suc.prems(5) obtain b where b: "budget = Suc b" and kb: "k < b"
    by (cases budget) simp_all
  from Suc.prems(1) have a0: "attempts n = Some (reread n)"
    by (metis add.right_neutral zero_less_Suc)
  have 1: "\<forall>i<k. attempts (Suc n + i) = Some (reread (Suc n + i))"
    using Suc.prems(1) by (metis Suc_less_eq add_Suc_shift)
  have 2: "stillValid now (mutableState (stored (p\<lparr>stored := reread n\<rparr>))) (target task)"
    using Suc.prems(3) by (metis add.right_neutral select_convs(1) surjective update_convs(1) zero_less_Suc)
  have 3: "\<forall>i<k. stillValid now (mutableState (reread (Suc n + i))) (target task)"
    using Suc.prems(3) by (metis Suc_less_eq add_Suc_shift)
  have 4: "attempts (Suc n + k) = None" using Suc.prems(4) by simp
  have r: "(if k = 0 then reread n else reread (Suc n + k - 1)) = reread (n + Suc k - 1)"
    by (cases k) simp_all
  from Suc.IH [OF 1 2 3 4 kb] Suc.prems(2) a0 b r show ?case by simp
qed

text \<open>
  Claim C5, on the model of the timer queue processor described by the spec. A due timer
  task is live; the first \<open>k\<close> conditional updates of the processor meet a version
  mismatch, each time the workflow it reads again still has the task live, and the
  update after them commits within the retry budget. Then the processor has appended
  exactly one timeout event to the history it read last, has removed the task from the
  timer index, and \<open>timerFiredCount\<close> has gone up by exactly one.
\<close>

theorem timer_fires_once_after_retries:
  assumes mismatches: "\<forall>i<k. attempts i = Some (reread i)"
    and live: "stillValid now (mutableState (stored p)) (target task)"
    and stays_live: "\<forall>i<k. stillValid now (mutableState (reread i)) (target task)"
    and commits: "attempts k = None"
    and budget: "k < budget"
  shows "timerFiredCount (fireTimer attempts 0 budget now task p) = Suc (timerFiredCount p)
       \<and> history (stored (fireTimer attempts 0 budget now task p))
           = history (if k = 0 then stored p else reread (k - 1)) @ [TimeoutEvent (target task)]
       \<and> timerIndex (fireTimer attempts 0 budget now task p) = remove1 task (timerIndex p)"
proof -
  have "fireTimer attempts 0 budget now task p =
           p\<lparr>stored := fired (target task) (if k = 0 then stored p else reread (0 + k - 1)),
             timerIndex := remove1 task (timerIndex p),
             timerFiredCount := Suc (timerFiredCount p)\<rparr>"
    using assms by (intro fireTimer_retries) simp_all
  then show ?thesis by (simp add: fired_def)
qed

text \<open>
  Two consecutive update attempts on the decision's start-to-close timer, the first one
  failing: one timeout event, an empty timer index and a final count of 1.
\<close>

theorem timer_fires_once_after_retries_witness:
  "timerFiredCount (fireTimer firstAttemptFails 0 2 5 decisionTimer contendedProcessor) = 1
   \<and> history (stored (fireTimer firstAttemptFails 0 2 5 decisionTimer contendedProcessor))
       = [OtherEvent, OtherEvent, OtherEvent, TimeoutEvent (DecisionStartToClose 2)]
   \<and> timerIndex (fireTimer firstAttemptFails 0 2 5 decisionTimer contendedProcessor) = []"
proof -
  have 1: "\<forall>i<1. firstAttemptFails i = Some ((\<lambda>_. contendedWorkflow) i)"
    by (simp add: firstAttemptFails_def)
  have 2: "stillValid 5 (mutableState (stored contendedProcessor)) (target decisionTimer)"
    by (simp add: contendedProcessor_def contendedWorkflow_def decisionTimer_def)
  have 3: "\<forall>i<1. stillValid 5 (mutableState ((\<lambda>_. contendedWorkflow) i)) (target decisionTimer)"
    by (simp add: contendedWorkflow_def decisionTimer_def)
  have 4: "firstAttemptFails 1 = None" by (simp add: firstAttemptFails_def)
  have 5: "(1::nat) < 2" by simp
  from timer_fires_once_after_retries [OF 1 2 3 4 5]
  show ?thesis
    by (simp add: contendedProcessor_def contendedWorkflow_def decisionTimer_def)
qed

end
